theory Spec2Isabelle
  imports Main "HOL-Library.Word"
begin

section \<open>JavaScript strings\<close>

text \<open>
  A JavaScript string is a sequence of 16-bit code units. The literals of the program are
  ASCII; \<open>js\<close> turns an ASCII literal into its code units.
\<close>

type_synonym jsstring = "16 word list"

definition js :: "string \<Rightarrow> jsstring" where
  "js s = map (\<lambda>c. word_of_nat (of_char c)) s"

text \<open>
  \<open>String.prototype.trim\<close> removes the code units of WhiteSpace and LineTerminator from
  both ends: TAB, LF, VT, FF, CR, SP, NBSP, U+1680, U+2000..U+200A, U+2028, U+2029, U+202F,
  U+205F, U+3000 and U+FEFF.
\<close>

definition js_whitespace :: "16 word \<Rightarrow> bool" where
  "js_whitespace c \<longleftrightarrow>
     c \<in> set [0x09, 0x0A, 0x0B, 0x0C, 0x0D, 0x20, 0xA0, 0x1680, 0x2028, 0x2029, 0x202F,
               0x205F, 0x3000, 0xFEFF]
     \<or> (0x2000 \<le> c \<and> c \<le> 0x200A)"

definition trim :: "jsstring \<Rightarrow> jsstring" where
  "trim s = rev (dropWhile js_whitespace (rev (dropWhile js_whitespace s)))"

section \<open>JSON values\<close>

text \<open>
  The values that \<open>JSON.parse\<close> and the body parser of the relay produce. A number that
  is a safe integer (of magnitude below \<open>2^53\<close>) is \<open>JNum\<close>; any other number is \<open>JDbl\<close>,
  carrying the text that \<open>Number.prototype.toString\<close> gives for it. An object is the list of
  its properties in insertion order, with distinct keys.
\<close>

datatype json =
    JNull
  | JBool bool
  | JNum int
  | JDbl jsstring
  | JStr jsstring
  | JArr "json list"
  | JObj "(jsstring \<times> json) list"

text \<open>ToBoolean. No number of \<open>JDbl\<close> is zero; only \<open>NaN\<close> among them is falsy.\<close>

fun truthy :: "json \<Rightarrow> bool" where
  "truthy JNull = False"
| "truthy (JBool b) = b"
| "truthy (JNum n) = (n \<noteq> 0)"
| "truthy (JDbl s) = (s \<noteq> js ''NaN'')"
| "truthy (JStr s) = (s \<noteq> [])"
| "truthy (JArr vs) = True"
| "truthy (JObj kvs) = True"

text \<open>
  Reading a property \<open>v.k\<close> of a value that is neither \<open>null\<close> nor \<open>undefined\<close>, for the
  names the program reads (\<open>messages\<close>, \<open>model\<close>, \<open>stream\<close>, \<open>role\<close>, \<open>content\<close>, \<open>message\<close>,
  \<open>detail\<close>, \<open>error\<close>):
  none of them is a property of the prototypes of strings, numbers, booleans or arrays.
  \<open>None\<close> is \<open>undefined\<close>.
\<close>

fun js_get :: "json \<Rightarrow> jsstring \<Rightarrow> json option" where
  "js_get (JObj kvs) k = map_of kvs k"
| "js_get v k = None"

subsection \<open>JSON.stringify\<close>

definition digit_unit :: "int \<Rightarrow> 16 word" where
  "digit_unit d = word_of_int (48 + d)"

text \<open>The decimal digits of an integer that is not negative.\<close>

function decimal :: "int \<Rightarrow> jsstring" where
  "decimal n = (if n < 10 then [digit_unit n] else decimal (n div 10) @ [digit_unit (n mod 10)])"
  by pat_completeness auto
termination
  by (relation "measure nat") auto

definition int_decimal :: "int \<Rightarrow> jsstring" where
  "int_decimal i = (if i < 0 then 0x2D # decimal (- i) else decimal i)"

definition hex_unit :: "int \<Rightarrow> 16 word" where
  "hex_unit d = (if d < 10 then word_of_int (48 + d) else word_of_int (87 + d))"

text \<open>The escape \<open>\uXXXX\<close> of a code unit, in lower-case hexadecimal digits.\<close>

definition unicode_escape :: "16 word \<Rightarrow> jsstring" where
  "unicode_escape c =
     [0x5C, 0x75, hex_unit (uint c div 4096), hex_unit (uint c div 256 mod 16),
      hex_unit (uint c div 16 mod 16), hex_unit (uint c mod 16)]"

definition high_surrogate :: "16 word \<Rightarrow> bool" where
  "high_surrogate c \<longleftrightarrow> 0xD800 \<le> c \<and> c \<le> 0xDBFF"

definition low_surrogate :: "16 word \<Rightarrow> bool" where
  "low_surrogate c \<longleftrightarrow> 0xDC00 \<le> c \<and> c \<le> 0xDFFF"

text \<open>
  QuoteJSONString without its enclosing quotes: the quote, the backslash and the control
  characters are escaped, a surrogate that is not part of a pair is escaped, every other
  code unit stands for itself.
\<close>

fun quote_units :: "jsstring \<Rightarrow> jsstring" where
  "quote_units [] = []"
| "quote_units [c] =
     (if c = 0x22 then [0x5C, 0x22]
      else if c = 0x5C then [0x5C, 0x5C]
      else if c = 0x08 then [0x5C, 0x62]
      else if c = 0x09 then [0x5C, 0x74]
      else if c = 0x0A then [0x5C, 0x6E]
      else if c = 0x0C then [0x5C, 0x66]
      else if c = 0x0D then [0x5C, 0x72]
      else if c < 0x20 \<or> high_surrogate c \<or> low_surrogate c then unicode_escape c
      else [c])"
| "quote_units (c # d # ds) =
     (if high_surrogate c \<and> low_surrogate d then c # d # quote_units ds
      else quote_units [c] @ quote_units (d # ds))"

definition quote_json :: "jsstring \<Rightarrow> jsstring" where
  "quote_json s = 0x22 # quote_units s @ [0x22]"

fun join_commas :: "jsstring list \<Rightarrow> jsstring" where
  "join_commas [] = []"
| "join_commas [x] = x"
| "join_commas (x # y # ys) = x @ 0x2C # join_commas (y # ys)"

text \<open>
  \<open>JSON.stringify\<close> with no indentation. A number that is not finite is written \<open>null\<close>.
\<close>

fun stringify :: "json \<Rightarrow> jsstring" where
  "stringify JNull = js ''null''"
| "stringify (JBool b) = (if b then js ''true'' else js ''false'')"
| "stringify (JNum n) = int_decimal n"
| "stringify (JDbl s) =
     (if s \<in> set [js ''NaN'', js ''Infinity'', js ''-Infinity''] then js ''null'' else s)"
| "stringify (JStr s) = quote_json s"
| "stringify (JArr vs) = 0x5B # join_commas (map stringify vs) @ [0x5D]"
| "stringify (JObj kvs) =
     0x7B # join_commas (map (\<lambda>(k, v). quote_json k @ 0x3A # stringify v) kvs) @ [0x7D]"

subsection \<open>JSON.parse\<close>

text \<open>The white space of JSON: space, tab, line feed and carriage return.\<close>

definition json_ws :: "16 word \<Rightarrow> bool" where
  "json_ws c \<longleftrightarrow> c = 0x20 \<or> c = 0x09 \<or> c = 0x0A \<or> c = 0x0D"

definition skip_ws :: "jsstring \<Rightarrow> jsstring" where
  "skip_ws s = dropWhile json_ws s"

definition is_digit :: "16 word \<Rightarrow> bool" where
  "is_digit c \<longleftrightarrow> 0x30 \<le> c \<and> c \<le> 0x39"

definition hex_value :: "16 word \<Rightarrow> int option" where
  "hex_value c =
     (if 0x30 \<le> c \<and> c \<le> 0x39 then Some (uint c - 48)
      else if 0x61 \<le> c \<and> c \<le> 0x66 then Some (uint c - 87)
      else if 0x41 \<le> c \<and> c \<le> 0x46 then Some (uint c - 55)
      else None)"

definition hex4 :: "16 word \<Rightarrow> 16 word \<Rightarrow> 16 word \<Rightarrow> 16 word \<Rightarrow> 16 word option" where
  "hex4 a b c d =
     (case (hex_value a, hex_value b, hex_value c, hex_value d) of
        (Some x, Some y, Some z, Some w) \<Rightarrow> Some (word_of_int (x * 4096 + y * 256 + z * 16 + w))
      | _ \<Rightarrow> None)"

text \<open>The code unit that a one-letter escape stands for.\<close>

definition unescape :: "16 word \<Rightarrow> 16 word option" where
  "unescape e =
     (if e = 0x22 \<or> e = 0x5C \<or> e = 0x2F then Some e
      else if e = 0x62 then Some 0x08
      else if e = 0x66 then Some 0x0C
      else if e = 0x6E then Some 0x0A
      else if e = 0x72 then Some 0x0D
      else if e = 0x74 then Some 0x09
      else None)"

text \<open>
  The characters of a string after its opening quote, up to the closing quote: the string
  and what follows it. A control character, an unknown escape and a missing closing quote
  are syntax errors.
\<close>

fun parse_chars :: "jsstring \<Rightarrow> (jsstring \<times> jsstring) option" where
  "parse_chars [] = None"
| "parse_chars (c # cs) =
     (if c = 0x22 then Some ([], cs)
      else if c = 0x5C then
        (case cs of
           [] \<Rightarrow> None
         | e # es \<Rightarrow>
             if e = 0x75 then
               (case es of
                  x # y # z # w # r \<Rightarrow>
                    (case hex4 x y z w of
                       None \<Rightarrow> None
                     | Some u \<Rightarrow> (case parse_chars r of None \<Rightarrow> None | Some (str, r') \<Rightarrow> Some (u # str, r')))
                | _ \<Rightarrow> None)
             else
               (case unescape e of
                  None \<Rightarrow> None
                | Some u \<Rightarrow> (case parse_chars es of None \<Rightarrow> None | Some (str, r') \<Rightarrow> Some (u # str, r'))))
      else if c < 0x20 then None
      else (case parse_chars cs of None \<Rightarrow> None | Some (str, r') \<Rightarrow> Some (c # str, r')))"

text \<open>The value of a sequence of decimal digits, most significant first.\<close>

definition digits_value :: "jsstring \<Rightarrow> int" where
  "digits_value ds = foldl (\<lambda>n c. 10 * n + (uint c - 48)) 0 ds"

text \<open>
  The lexeme of a number at the head of the input, and what follows it: an optional minus,
  \<open>0\<close> or a digit from 1 to 9 followed by digits, an optional fraction, an optional exponent.
\<close>

definition lex_int :: "jsstring \<Rightarrow> (jsstring \<times> jsstring) option" where
  "lex_int s =
     (case s of
        [] \<Rightarrow> None
      | c # cs \<Rightarrow>
          if c = 0x30 then Some ([c], cs)
          else if is_digit c then Some (c # takeWhile is_digit cs, dropWhile is_digit cs)
          else None)"

definition lex_frac :: "jsstring \<Rightarrow> (jsstring \<times> jsstring) option" where
  "lex_frac s =
     (case s of
        c # d # ds \<Rightarrow>
          if c = 0x2E then
            (if is_digit d then Some (c # d # takeWhile is_digit ds, dropWhile is_digit ds) else None)
          else Some ([], s)
      | [c] \<Rightarrow> if c = 0x2E then None else Some ([], s)
      | [] \<Rightarrow> Some ([], s))"

definition lex_digits1 :: "jsstring \<Rightarrow> (jsstring \<times> jsstring) option" where
  "lex_digits1 s = (if s \<noteq> [] \<and> is_digit (hd s) then Some (takeWhile is_digit s, dropWhile is_digit s) else None)"

definition lex_exp :: "jsstring \<Rightarrow> (jsstring \<times> jsstring) option" where
  "lex_exp s =
     (case s of
        [] \<Rightarrow> Some ([], s)
      | c # cs \<Rightarrow>
          if c = 0x65 \<or> c = 0x45 then
            (case cs of
               [] \<Rightarrow> None
             | g # gs \<Rightarrow>
                 if g = 0x2B \<or> g = 0x2D then
                   (case lex_digits1 gs of None \<Rightarrow> None | Some (ds, r) \<Rightarrow> Some (c # g # ds, r))
                 else (case lex_digits1 cs of None \<Rightarrow> None | Some (ds, r) \<Rightarrow> Some (c # ds, r)))
          else Some ([], s))"

definition lex_number :: "jsstring \<Rightarrow> ((bool \<times> jsstring \<times> jsstring \<times> jsstring) \<times> jsstring) option" where
  "lex_number s =
     (let (neg, s1) = (if s \<noteq> [] \<and> hd s = 0x2D then (True, tl s) else (False, s))
      in case lex_int s1 of
           None \<Rightarrow> None
         | Some (ip, s2) \<Rightarrow>
             (case lex_frac s2 of
                None \<Rightarrow> None
              | Some (fp, s3) \<Rightarrow>
                  (case lex_exp s3 of
                     None \<Rightarrow> None
                   | Some (ep, s4) \<Rightarrow> Some ((neg, ip, fp, ep), s4))))"

text \<open>An optional minus and decimal digits: the integer that a text is, if it is one.\<close>

definition decimal_int :: "jsstring \<Rightarrow> int option" where
  "decimal_int s =
     (let (neg, ds) = (if s \<noteq> [] \<and> hd s = 0x2D then (True, tl s) else (False, s))
      in if ds \<noteq> [] \<and> list_all is_digit ds
         then Some (if neg then - digits_value ds else digits_value ds)
         else None)"

definition safe_integer :: "int \<Rightarrow> bool" where
  "safe_integer n \<longleftrightarrow> \<bar>n\<bar> < 2 ^ 53"

text \<open>
  The number that a lexeme denotes. A lexeme with neither fraction nor exponent whose value
  is a safe integer denotes that integer exactly. For any other lexeme the double that it is
  read as is not computed here: \<open>dbl\<close>, a parameter of the parser, gives the text of
  \<open>Number.prototype.toString\<close> for it, and the number is the integer that this text
  denotes, when it denotes a safe integer.
\<close>

definition number_of_text :: "jsstring \<Rightarrow> json" where
  "number_of_text t =
     (case decimal_int t of
        Some n \<Rightarrow> if safe_integer n then JNum n else JDbl t
      | None \<Rightarrow> JDbl t)"

definition number_value :: "(jsstring \<Rightarrow> jsstring) \<Rightarrow> bool \<times> jsstring \<times> jsstring \<times> jsstring \<Rightarrow> json" where
  "number_value dbl lx =
     (case lx of (neg, ip, fp, ep) \<Rightarrow>
        let n = (if neg then - digits_value ip else digits_value ip)
        in if fp = [] \<and> ep = [] \<and> safe_integer n then JNum n
           else number_of_text (dbl ((if neg then [0x2D] else []) @ ip @ fp @ ep)))"

text \<open>CreateDataProperty: the value of a key that the object has is replaced, a new key is added last.\<close>

fun set_property :: "jsstring \<times> json \<Rightarrow> (jsstring \<times> json) list \<Rightarrow> (jsstring \<times> json) list" where
  "set_property kv [] = [kv]"
| "set_property kv (p # ps) = (if fst p = fst kv then kv # ps else p # set_property kv ps)"

definition object_of :: "(jsstring \<times> json) list \<Rightarrow> json" where
  "object_of members = JObj (fold set_property members [])"

definition expect :: "16 word \<Rightarrow> jsstring \<Rightarrow> jsstring option" where
  "expect c s = (case s of [] \<Rightarrow> None | x # r \<Rightarrow> if x = c then Some r else None)"

definition literal :: "jsstring \<Rightarrow> jsstring \<Rightarrow> jsstring option" where
  "literal w s = (if take (length w) s = w then Some (drop (length w) s) else None)"

text \<open>
  The recursive descent over a value, the elements of an array after its opening bracket,
  and the members of an object after its opening brace. The first argument after \<open>dbl\<close>
  bounds the depth of the recursion; \<open>JSON_parse\<close> starts it above the length of the text,
  and every call below the first one has consumed a character.
\<close>

fun parse_value :: "(jsstring \<Rightarrow> jsstring) \<Rightarrow> nat \<Rightarrow> jsstring \<Rightarrow> (json \<times> jsstring) option"
  and parse_elements :: "(jsstring \<Rightarrow> jsstring) \<Rightarrow> nat \<Rightarrow> jsstring \<Rightarrow> (json list \<times> jsstring) option"
  and parse_members :: "(jsstring \<Rightarrow> jsstring) \<Rightarrow> nat \<Rightarrow> jsstring \<Rightarrow> ((jsstring \<times> json) list \<times> jsstring) option"
where
  "parse_value dbl 0 s = None"
| "parse_value dbl (Suc n) s =
     (case skip_ws s of
        [] \<Rightarrow> None
      | c # cs \<Rightarrow>
          if c = 0x22 then
            (case parse_chars cs of None \<Rightarrow> None | Some (str, r) \<Rightarrow> Some (JStr str, r))
          else if c = 0x5B then
            (case expect 0x5D (skip_ws cs) of
               Some r \<Rightarrow> Some (JArr [], r)
             | None \<Rightarrow>
                 (case parse_elements dbl n cs of None \<Rightarrow> None | Some (vs, r) \<Rightarrow> Some (JArr vs, r)))
          else if c = 0x7B then
            (case expect 0x7D (skip_ws cs) of
               Some r \<Rightarrow> Some (JObj [], r)
             | None \<Rightarrow>
                 (case parse_members dbl n cs of None \<Rightarrow> None | Some (ms, r) \<Rightarrow> Some (object_of ms, r)))
          else if c = 0x74 then
            (case literal (js ''true'') (c # cs) of None \<Rightarrow> None | Some r \<Rightarrow> Some (JBool True, r))
          else if c = 0x66 then
            (case literal (js ''false'') (c # cs) of None \<Rightarrow> None | Some r \<Rightarrow> Some (JBool False, r))
          else if c = 0x6E then
            (case literal (js ''null'') (c # cs) of None \<Rightarrow> None | Some r \<Rightarrow> Some (JNull, r))
          else
            (case lex_number (c # cs) of None \<Rightarrow> None | Some (lx, r) \<Rightarrow> Some (number_value dbl lx, r)))"
| "parse_elements dbl 0 s = None"
| "parse_elements dbl (Suc n) s =
     (case parse_value dbl n s of
        None \<Rightarrow> None
      | Some (v, r) \<Rightarrow>
          (case skip_ws r of
             [] \<Rightarrow> None
           | c # cs \<Rightarrow>
               if c = 0x2C then
                 (case parse_elements dbl n cs of None \<Rightarrow> None | Some (vs, r') \<Rightarrow> Some (v # vs, r'))
               else if c = 0x5D then Some ([v], cs)
               else None))"
| "parse_members dbl 0 s = None"
| "parse_members dbl (Suc n) s =
     (case expect 0x22 (skip_ws s) of
        None \<Rightarrow> None
      | Some s1 \<Rightarrow>
          (case parse_chars s1 of
             None \<Rightarrow> None
           | Some (k, s2) \<Rightarrow>
               (case expect 0x3A (skip_ws s2) of
                  None \<Rightarrow> None
                | Some s3 \<Rightarrow>
                    (case parse_value dbl n s3 of
                       None \<Rightarrow> None
                     | Some (v, r) \<Rightarrow>
                         (case skip_ws r of
                            [] \<Rightarrow> None
                          | c # cs \<Rightarrow>
                              if c = 0x2C then
                                (case parse_members dbl n cs of
                                   None \<Rightarrow> None
                                 | Some (ms, r') \<Rightarrow> Some ((k, v) # ms, r'))
                              else if c = 0x7D then Some ([(k, v)], cs)
                              else None)))))"

text \<open>\<open>JSON.parse\<close>: \<open>None\<close> is the SyntaxError. Only white space may follow the value.\<close>

definition JSON_parse :: "(jsstring \<Rightarrow> jsstring) \<Rightarrow> jsstring \<Rightarrow> json option" where
  "JSON_parse dbl s =
     (case parse_value dbl (Suc (length s)) s of
        None \<Rightarrow> None
      | Some (v, r) \<Rightarrow> if skip_ws r = [] then Some v else None)"

text \<open>
  The values that \<open>JSON.stringify\<close> writes and \<open>JSON.parse\<close> reads back as they are: every
  number is a safe integer, and the keys of every object are distinct.
\<close>

fun wf_json :: "json \<Rightarrow> bool" where
  "wf_json (JNum n) = safe_integer n"
| "wf_json (JDbl t) = False"
| "wf_json (JArr vs) = (\<forall>v \<in> set vs. wf_json v)"
| "wf_json (JObj kvs) = (distinct (map fst kvs) \<and> (\<forall>kv \<in> set kvs. wf_json (snd kv)))"
| "wf_json v = True"

text \<open>
  What may follow a value: the end of the text, a comma, a closing bracket or brace, or
  white space.
\<close>

definition follow :: "jsstring \<Rightarrow> bool" where
  "follow r \<longleftrightarrow> (case r of [] \<Rightarrow> True | c # _ \<Rightarrow> c = 0x2C \<or> c = 0x5D \<or> c = 0x7D \<or> json_ws c)"

section \<open>The relay: \<open>POST /chat\<close> of \<open>apps/api/src/index.ts\<close>\<close>

text \<open>
  A thrown value: an \<open>Error\<close> with its message, or anything else. The TypeErrors of the
  engine are \<open>Error\<close>s; their messages are those of V8.
\<close>

datatype exn = Error jsstring | Thrown

definition reading_content_of :: "jsstring \<Rightarrow> exn" where
  "reading_content_of what =
     Error (js ''Cannot read properties of '' @ what @ js '' (reading 'content')'')"

definition trim_not_a_function :: exn where
  "trim_not_a_function = Error (js ''msg.content.trim is not a function'')"

text \<open>
  The predicate of the filter, \<open>msg.content && msg.content.trim()\<close>. Reading \<open>content\<close> of
  \<open>null\<close> throws; a falsy \<open>content\<close> (also a missing one) drops the message; \<open>trim\<close> is a
  method of strings only, and calling it on any other truthy value throws.
\<close>

fun keep_message :: "json \<Rightarrow> exn + bool" where
  "keep_message JNull = Inl (reading_content_of (js ''null''))"
| "keep_message msg =
     (case js_get msg (js ''content'') of
        None \<Rightarrow> Inr False
      | Some c \<Rightarrow>
          if \<not> truthy c then Inr False
          else (case c of JStr s \<Rightarrow> Inr (trim s \<noteq> []) | _ \<Rightarrow> Inl trim_not_a_function))"

text \<open>\<open>Array.prototype.filter\<close> with a predicate that may throw: the first throw ends it.\<close>

fun filter_messages :: "json list \<Rightarrow> exn + json list" where
  "filter_messages [] = Inr []"
| "filter_messages (msg # msgs) =
     (case keep_message msg of
        Inl e \<Rightarrow> Inl e
      | Inr keep \<Rightarrow>
          (case filter_messages msgs of
             Inl e \<Rightarrow> Inl e
           | Inr rest \<Rightarrow> Inr (if keep then msg # rest else rest)))"

text \<open>
  An entry of the history given to the backend, \<open>{role, parts: [{text}]}\<close>: the role is
  \<open>"model"\<close> or \<open>"user"\<close>, the text of each part is what \<open>msg.content\<close> read.
\<close>

datatype gemini_role = RoleUser | RoleModel

datatype gemini_content = Content (role_of: gemini_role) (parts: "json option list")

definition to_content :: "json \<Rightarrow> gemini_content" where
  "to_content msg =
     Content (if js_get msg (js ''role'') = Some (JStr (js ''assistant'')) then RoleModel else RoleUser)
       [js_get msg (js ''content'')]"

text \<open>
  Lines 134 to 137: when the history is not empty and its first entry is not a user entry,
  the entries of index greater than \<open>0\<close> are kept.
\<close>

definition ensure_user_first :: "gemini_content list \<Rightarrow> gemini_content list" where
  "ensure_user_first history =
     (if length history > 0 \<and> role_of (hd history) \<noteq> RoleUser
      then map snd (filter (\<lambda>(index, _). index > 0) (zip [0 ..< length history] history))
      else history)"

text \<open>Lines 127 to 137: \<open>messages.slice(0, -1)\<close>, filtered, mapped, and the leading entry checked.\<close>

definition convert_history :: "json list \<Rightarrow> exn + gemini_content list" where
  "convert_history messages =
     (case filter_messages (butlast messages) of
        Inl e \<Rightarrow> Inl e
      | Inr kept \<Rightarrow> Inr (ensure_user_first (map to_content kept)))"

text \<open>
  \<open>lastMessage.content\<close> with \<open>lastMessage = messages[messages.length - 1]\<close>: \<open>undefined\<close>
  for an empty array, and reading a property of \<open>undefined\<close> or \<open>null\<close> throws.
\<close>

definition last_content :: "json list \<Rightarrow> exn + json option" where
  "last_content messages =
     (if messages = [] then Inl (reading_content_of (js ''undefined''))
      else if last messages = JNull then Inl (reading_content_of (js ''null''))
      else Inr (js_get (last messages) (js ''content'')))"

subsection \<open>The backend\<close>

text \<open>
  The SDK is a parameter of the relay. \<open>getGenerativeModel\<close> is given the model name and
  the system instruction, of which the two strings of the current date and time vary, and
  \<open>startChat\<close> the history: each may throw. \<open>sendMessage\<close> throws or returns the text and
  the raw response; \<open>sendMessageStream\<close> throws, or returns the texts of the chunks that the
  stream yields and, when the iteration throws after them, what it throws. A \<open>chat_call\<close> is
  all that one request has handed to the SDK when it sends the prompt.
\<close>

record chat_call =
  model_name :: json
  date_time :: "jsstring \<times> jsstring"
  history :: "gemini_content list"
  prompt :: "json option"

datatype backend_call = SendMessage chat_call | SendMessageStream chat_call

record backend =
  getGenerativeModel :: "json \<Rightarrow> jsstring \<times> jsstring \<Rightarrow> exn option"
  startChat :: "json \<Rightarrow> jsstring \<times> jsstring \<Rightarrow> gemini_content list \<Rightarrow> exn option"
  sendMessage :: "chat_call \<Rightarrow> exn + jsstring \<times> json"
  sendMessageStream :: "chat_call \<Rightarrow> exn + jsstring list \<times> exn option"

record env =
  GEMINI_API_KEY :: "jsstring option"
  GEMINI_MODEL :: "jsstring option"

text \<open>
  What the handler leaves on the wire: a JSON response with its status, a stream of written
  lines that was ended, or a stream of written lines on which the handler failed (the
  headers are sent, so the error envelope cannot be).
\<close>

datatype response = Json nat json | Streamed "jsstring list" | StreamBroken "jsstring list"

definition not_configured :: json where
  "not_configured =
     JObj [(js ''error'', JStr (js ''gemini_not_configured'')),
           (js ''detail'', JStr (js ''GEMINI_API_KEY environment variable is not set''))]"

definition request_failed :: "exn \<Rightarrow> json" where
  "request_failed e =
     JObj [(js ''error'', JStr (js ''gemini_request_failed'')),
           (js ''detail'', JStr (case e of Error m \<Rightarrow> m | Thrown \<Rightarrow> js ''unknown_error'')),
           (js ''hint'', JStr (js ''Check your GEMINI_API_KEY and rate limits.''))]"

text \<open>Line 153: the object of a fragment, and the line of the streamed body that carries it.\<close>

definition fragment_json :: "jsstring \<Rightarrow> json" where
  "fragment_json t = JObj [(js ''message'', JObj [(js ''content'', JStr t)])]"

definition fragment_line :: "jsstring \<Rightarrow> jsstring" where
  "fragment_line t = stringify (fragment_json t) @ [0x0A]"

text \<open>Lines 149 to 155: a chunk whose text is empty writes nothing.\<close>

fun emit :: "jsstring list \<Rightarrow> jsstring list" where
  "emit [] = []"
| "emit (t # ts) = (if t \<noteq> [] then fragment_line t # emit ts else emit ts)"

text \<open>\<open>a ?? b\<close>: \<open>b\<close> when \<open>a\<close> is \<open>undefined\<close> or \<open>null\<close>, and \<open>a\<close> otherwise.\<close>

fun nullish_or :: "json option \<Rightarrow> json \<Rightarrow> json" where
  "nullish_or None b = b"
| "nullish_or (Some JNull) b = b"
| "nullish_or (Some a) b = a"

text \<open>
  Lines 113 to 140 and the argument of the send: the model, the history, the chat and the
  prompt \<open>lastMessage.content\<close>, in the order in which each may throw.
\<close>

definition prepare :: "backend \<Rightarrow> jsstring \<times> jsstring \<Rightarrow> json \<Rightarrow> json list \<Rightarrow> exn + chat_call" where
  "prepare be now modelName msgs =
     (case getGenerativeModel be modelName now of
        Some e \<Rightarrow> Inl e
      | None \<Rightarrow>
          (case convert_history msgs of
             Inl e \<Rightarrow> Inl e
           | Inr h \<Rightarrow>
               (case startChat be modelName now h of
                  Some e \<Rightarrow> Inl e
                | None \<Rightarrow>
                    (case last_content msgs of
                       Inl e \<Rightarrow> Inl e
                     | Inr p \<Rightarrow> Inr \<lparr>model_name = modelName, date_time = now, history = h, prompt = p\<rparr>))))"

text \<open>
  The handler of \<open>POST /chat\<close>: the response, and the prompts sent to the backend. \<open>body\<close>
  is \<open>req.body\<close>, \<open>now\<close> the formatted date and time of the request. Everything from line
  112 on is inside the \<open>try\<close>: what is thrown before the first line is written is answered
  502.
\<close>

definition chat :: "env \<Rightarrow> backend \<Rightarrow> jsstring \<times> jsstring \<Rightarrow> json option \<Rightarrow> response \<times> backend_call list" where
  "chat ev be now body =
     (let b = nullish_or body (JObj []);
          messages = js_get b (js ''messages'');
          model = js_get b (js ''model'');
          stream = js_get b (js ''stream'')
      in case messages of
           Some (JArr msgs) \<Rightarrow>
             if (case GEMINI_API_KEY ev of None \<Rightarrow> [] | Some k \<Rightarrow> k) = [] then (Json 500 not_configured, [])
             else
               let modelName =
                     nullish_or model
                       (case GEMINI_MODEL ev of Some m \<Rightarrow> JStr m | None \<Rightarrow> JStr (js ''gemini-1.5-flash''));
                   useStream = truthy (nullish_or stream (JBool True))
               in (case prepare be now modelName msgs of
                     Inl e \<Rightarrow> (Json 502 (request_failed e), [])
                   | Inr call \<Rightarrow>
                       if useStream then
                         (case sendMessageStream be call of
                            Inl e \<Rightarrow> (Json 502 (request_failed e), [SendMessageStream call])
                          | Inr (chunks, None) \<Rightarrow> (Streamed (emit chunks), [SendMessageStream call])
                          | Inr (chunks, Some e) \<Rightarrow>
                              (if emit chunks = [] then Json 502 (request_failed e)
                               else StreamBroken (emit chunks), [SendMessageStream call]))
                       else
                         (case sendMessage be call of
                            Inl e \<Rightarrow> (Json 502 (request_failed e), [SendMessage call])
                          | Inr (t, raw) \<Rightarrow>
                              (Json 200 (JObj [(js ''message'', JStr t), (js ''raw'', raw)]),
                               [SendMessage call])))
         | _ \<Rightarrow> (Json 400 (JObj [(js ''error'', JStr (js ''messages must be an array''))]), []))"

text \<open>A request body \<open>{messages, model, stream}\<close> with a boolean \<open>stream\<close>.\<close>

definition request :: "json list \<Rightarrow> json \<Rightarrow> bool \<Rightarrow> json option" where
  "request msgs model stream =
     Some (JObj [(js ''messages'', JArr msgs), (js ''model'', model), (js ''stream'', JBool stream)])"

text \<open>A turn \<open>{role, content}\<close> as the client sends it.\<close>

definition turn :: "string \<Rightarrow> string \<Rightarrow> json" where
  "turn r c = JObj [(js ''role'', JStr (js r)), (js ''content'', JStr (js c))]"

text \<open>The lines that a response has written to a stream.\<close>

fun written :: "response \<Rightarrow> jsstring list" where
  "written (Json st v) = []"
| "written (Streamed ls) = ls"
| "written (StreamBroken ls) = ls"

text \<open>
  A stubbed deterministic backend: where \<open>sendMessage\<close> throws, \<open>sendMessageStream\<close> throws
  the same; where it answers a text, the stream yields chunks whose texts make up that text,
  and ends.
\<close>

definition deterministic :: "backend \<Rightarrow> bool" where
  "deterministic be \<longleftrightarrow>
     (\<forall>c. case sendMessage be c of
            Inl e \<Rightarrow> sendMessageStream be c = Inl e
          | Inr (t, raw) \<Rightarrow> (\<exists>chunks. sendMessageStream be c = Inr (chunks, None) \<and> concat chunks = t))"

text \<open>The backend of the examples: it answers \<open>Hello!\<close>, streamed in three chunks.\<close>

definition hello_backend :: backend where
  "hello_backend =
     \<lparr>getGenerativeModel = (\<lambda>m now. None), startChat = (\<lambda>m now h. None),
      sendMessage = (\<lambda>c. Inr (js ''Hello!'', JNull)),
      sendMessageStream = (\<lambda>c. Inr ([js ''Hel'', [], js ''lo!''], None))\<rparr>"

text \<open>The model name of a request with a given \<open>model\<close>.\<close>

definition model_of :: "env \<Rightarrow> json \<Rightarrow> json" where
  "model_of ev model =
     nullish_or (Some model) (case GEMINI_MODEL ev of Some m \<Rightarrow> JStr m | None \<Rightarrow> JStr (js ''gemini-1.5-flash''))"

text \<open>The environments of the examples: with a key, and without one.\<close>

definition with_key :: env where
  "with_key = \<lparr>GEMINI_API_KEY = Some (js ''key''), GEMINI_MODEL = None\<rparr>"

definition without_key :: env where
  "without_key = \<lparr>GEMINI_API_KEY = None, GEMINI_MODEL = None\<rparr>"

definition monday :: "jsstring \<times> jsstring" where
  "monday = (js ''Monday, November 2, 2026'', js ''09:00 AM'')"

section \<open>The web client: \<open>apps/web/src/App.tsx\<close>\<close>

subsection \<open>Conversations and their storage\<close>

datatype role = User | Assistant | System

record Message =
  role :: role
  content :: jsstring

record Chat =
  chat_id :: jsstring
  title :: jsstring
  chat_messages :: "Message list"
  createdAt :: int

text \<open>
  The JavaScript values of the typed data: the properties of an object stand in the order
  in which its literal writes them. \<open>createdAt\<close> is a reading of \<open>Date.now()\<close>, an integer.
\<close>

definition role_json :: "role \<Rightarrow> json" where
  "role_json r = JStr (case r of User \<Rightarrow> js ''user'' | Assistant \<Rightarrow> js ''assistant'' | System \<Rightarrow> js ''system'')"

definition message_json :: "Message \<Rightarrow> json" where
  "message_json m = JObj [(js ''role'', role_json (role m)), (js ''content'', JStr (content m))]"

definition chat_json :: "Chat \<Rightarrow> json" where
  "chat_json c =
     JObj [(js ''id'', JStr (chat_id c)), (js ''title'', JStr (title c)),
           (js ''messages'', JArr (map message_json (chat_messages c))),
           (js ''createdAt'', JNum (createdAt c))]"

definition chats_json :: "Chat list \<Rightarrow> json" where
  "chats_json cs = JArr (map chat_json cs)"

text \<open>
  \<open>readJson\<close> (lines 102 to 109) over a storage of strings by key: the fallback when the key
  is absent, when its string is empty, and when the string does not parse.
\<close>

definition readJson :: "(jsstring \<Rightarrow> jsstring) \<Rightarrow> jsstring \<Rightarrow> json \<Rightarrow> (jsstring \<rightharpoonup> jsstring) \<Rightarrow> json" where
  "readJson dbl key fallback store =
     (case store key of
        None \<Rightarrow> fallback
      | Some raw \<Rightarrow>
          if raw = [] then fallback
          else (case JSON_parse dbl raw of None \<Rightarrow> fallback | Some v \<Rightarrow> v))"

text \<open>\<open>writeJson\<close> (lines 111 to 113): \<open>localStorage.setItem(key, JSON.stringify(value))\<close>.\<close>

definition writeJson :: "jsstring \<Rightarrow> json \<Rightarrow> (jsstring \<rightharpoonup> jsstring) \<Rightarrow> (jsstring \<rightharpoonup> jsstring)" where
  "writeJson key v store = store(key \<mapsto> stringify v)"

text \<open>
  Saving the conversations is the effect of lines 281 to 283, loading them is line 217.
\<close>

definition save_chats :: "Chat list \<Rightarrow> (jsstring \<rightharpoonup> jsstring) \<Rightarrow> (jsstring \<rightharpoonup> jsstring)" where
  "save_chats cs store = store(js ''avas-chats'' \<mapsto> stringify (chats_json cs))"

definition load_chats :: "(jsstring \<Rightarrow> jsstring) \<Rightarrow> (jsstring \<rightharpoonup> jsstring) \<Rightarrow> json" where
  "load_chats dbl store = readJson dbl (js ''avas-chats'') (JArr []) store"

subsection \<open>The state of the component\<close>

text \<open>
  A call of \<open>sendMessage\<close> that is suspended at an \<open>await\<close>: the constants of its closure
  (\<open>nextMessages\<close>, and the \<open>chats\<close> and \<open>currentChatId\<close> of the render that created it,
  which its \<open>saveChat\<close> reads), its variable \<open>assistantMessage\<close>, and what it awaits: the
  response of \<open>fetch\<close>, the body of a response that is not ok, or the next chunk of the stream.
\<close>

datatype awaiting = Fetch | ErrorBody | Read

record call =
  nextMessages :: "Message list"
  assistantMessage :: jsstring
  seenChats :: "Chat list"
  seenChatId :: "jsstring option"
  awaits :: awaiting

text \<open>
  The state that the operations of the conversation read and write: the \<open>useState\<close> cells,
  \<open>localStorage\<close>, the texts handed to the speech synthesis (when the browser has one), and
  the suspended call of \<open>sendMessage\<close>. The input box and the scroll position are left out.
\<close>

record app =
  messages :: "Message list"
  status :: jsstring
  isGenerating :: bool
  chats :: "Chat list"
  currentChatId :: "jsstring option"
  activityLog :: "(int \<times> jsstring) list"
  localStorage :: "jsstring \<rightharpoonup> jsstring"
  speechSynthesis :: bool
  utterances :: "jsstring list"
  pending :: "call option"

definition initialMessages :: "Message list" where
  "initialMessages =
     [\<lparr>role = Assistant, content = js ''Hi, I am AVAS. Ask me anything or tap the mic to speak.''\<rparr>]"

definition initial_app :: app where
  "initial_app =
     \<lparr>messages = initialMessages, status = js ''Ready'', isGenerating = False, chats = [],
      currentChatId = None, activityLog = [], localStorage = Map.empty, speechSynthesis = True,
      utterances = [], pending = None\<rparr>"

text \<open>\<open>setChats\<close> together with the effect that mirrors \<open>chats\<close> into the storage.\<close>

definition setChats :: "Chat list \<Rightarrow> app \<Rightarrow> app" where
  "setChats cs s = s\<lparr>chats := cs, localStorage := save_chats cs (localStorage s)\<rparr>"

definition activity_json :: "(int \<times> jsstring) list \<Rightarrow> json" where
  "activity_json lg = JArr (map (\<lambda>(t, a). JObj [(js ''timestamp'', JNum t), (js ''action'', JStr a)]) lg)"

text \<open>\<open>logActivity\<close> (lines 655 to 659); \<open>now\<close> is the reading of \<open>Date.now()\<close>.\<close>

definition logActivity :: "int \<Rightarrow> jsstring \<Rightarrow> app \<Rightarrow> app" where
  "logActivity now action s =
     (let newLog = activityLog s @ [(now, action)]
      in s\<lparr>activityLog := newLog,
           localStorage := writeJson (js ''avas-activity'') (activity_json newLog) (localStorage s)\<rparr>)"

text \<open>\<open>speak\<close> (lines 492 to 501).\<close>

definition speak :: "jsstring \<Rightarrow> app \<Rightarrow> app" where
  "speak t s = (if speechSynthesis s then s\<lparr>utterances := utterances s @ [t]\<rparr> else s)"

text \<open>\<open>clearChat\<close> (lines 503 to 507).\<close>

definition clearChat :: "app \<Rightarrow> app" where
  "clearChat s = s\<lparr>messages := initialMessages, status := js ''Ready'', currentChatId := None\<rparr>"

text \<open>\<open>generateChatTitle\<close> (lines 530 to 536).\<close>

definition generateChatTitle :: "Message list \<Rightarrow> jsstring" where
  "generateChatTitle msgs =
     (case find (\<lambda>m. role m = User) msgs of
        Some userMsg \<Rightarrow> take 50 (content userMsg) @ (if length (content userMsg) > 50 then js ''...'' else [])
      | None \<Rightarrow> js ''New chat'')"

text \<open>
  \<open>saveChat\<close> (lines 509 to 528), with the \<open>chats\<close> and \<open>currentChatId\<close> that its closure
  holds; \<open>now1\<close> and \<open>now2\<close> are the two readings of \<open>Date.now()\<close> of a new chat. An empty
  string is falsy, so an empty \<open>currentChatId\<close> creates a chat.
\<close>

definition saveChat :: "int \<Rightarrow> int \<Rightarrow> Message list \<Rightarrow> Chat list \<Rightarrow> jsstring option \<Rightarrow> app \<Rightarrow> app" where
  "saveChat now1 now2 msgs seen seenId s =
     (if seenId \<noteq> None \<and> seenId \<noteq> Some [] then
        setChats
          (map (\<lambda>c. if Some (chat_id c) = seenId
                     then c\<lparr>chat_messages := msgs, title := generateChatTitle msgs\<rparr> else c) seen) s
      else
        let newChat = \<lparr>chat_id = int_decimal now1, title = generateChatTitle msgs,
                        chat_messages = msgs, createdAt = now2\<rparr>
        in (setChats (newChat # seen) s)\<lparr>currentChatId := Some (chat_id newChat)\<rparr>)"

text \<open>\<open>deleteChat\<close> (lines 548 to 553) and \<open>renameChat\<close> (lines 555 to 559).\<close>

definition deleteChat :: "jsstring \<Rightarrow> app \<Rightarrow> app" where
  "deleteChat chatId s =
     (let s' = setChats (filter (\<lambda>c. chat_id c \<noteq> chatId) (chats s)) s
      in if currentChatId s = Some chatId then clearChat s' else s')"

definition renameChat :: "jsstring \<Rightarrow> jsstring \<Rightarrow> app \<Rightarrow> app" where
  "renameChat chatId newTitle s =
     setChats (map (\<lambda>c. if chat_id c = chatId then c\<lparr>title := newTitle\<rparr> else c) (chats s)) s"

text \<open>\<open>stopGenerating\<close> (lines 816 to 820); the abort itself is in \<open>step\<close> below.\<close>

definition stopGenerating :: "app \<Rightarrow> app" where
  "stopGenerating s = s\<lparr>isGenerating := False, status := js ''Stopped''\<rparr>"

subsection \<open>Reading the stream\<close>

text \<open>\<open>String.prototype.split\<close> on one code unit.\<close>

fun split_on :: "16 word \<Rightarrow> jsstring \<Rightarrow> jsstring list" where
  "split_on c [] = [[]]"
| "split_on c (x # xs) =
     (if x = c then [] # split_on c xs
      else (case split_on c xs of l # ls \<Rightarrow> (x # l) # ls | [] \<Rightarrow> [[x]]))"

text \<open>
  ToString of a value, for the string concatenation and the template literal: \<open>None\<close> is the
  TypeError of an object whose own property \<open>toString\<close> hides the method. An array joins
  its elements with commas, \<open>null\<close> elements as empty strings.
\<close>

fun to_js_string :: "json \<Rightarrow> jsstring option"
  and join_elements :: "json list \<Rightarrow> jsstring option"
where
  "to_js_string JNull = Some (js ''null'')"
| "to_js_string (JBool b) = Some (if b then js ''true'' else js ''false'')"
| "to_js_string (JNum n) = Some (int_decimal n)"
| "to_js_string (JDbl t) = Some t"
| "to_js_string (JStr t) = Some t"
| "to_js_string (JArr vs) = join_elements vs"
| "to_js_string (JObj kvs) =
     (if js ''toString'' \<in> set (map fst kvs) then None else Some (js ''[object Object]''))"
| "join_elements [] = Some []"
| "join_elements (v # vs) =
     (case (if v = JNull then Some [] else to_js_string v) of
        None \<Rightarrow> None
      | Some t \<Rightarrow>
          (case join_elements vs of
             None \<Rightarrow> None
           | Some ts \<Rightarrow> Some (if vs = [] then t else t @ 0x2C # ts)))"

text \<open>
  What one line adds to \<open>assistantMessage\<close> (lines 408 to 421), if anything: nothing when
  the line does not parse or reading \<open>parsed.message\<close> throws (both are caught), nothing when
  \<open>parsed.message?.content\<close> is falsy.
\<close>

definition fragment_of :: "(jsstring \<Rightarrow> jsstring) \<Rightarrow> jsstring \<Rightarrow> jsstring option" where
  "fragment_of dbl line =
     (case JSON_parse dbl line of
        None \<Rightarrow> None
      | Some JNull \<Rightarrow> None
      | Some parsed \<Rightarrow>
          (case js_get parsed (js ''message'') of
             None \<Rightarrow> None
           | Some JNull \<Rightarrow> None
           | Some m \<Rightarrow>
               (case js_get m (js ''content'') of
                  None \<Rightarrow> None
                | Some c \<Rightarrow> if truthy c then to_js_string c else None)))"

definition read_line :: "(jsstring \<Rightarrow> jsstring) \<Rightarrow> jsstring \<Rightarrow> app \<times> call \<Rightarrow> app \<times> call" where
  "read_line dbl line sc =
     (case sc of (s, c) \<Rightarrow>
        (case fragment_of dbl line of
           None \<Rightarrow> (s, c)
         | Some frag \<Rightarrow>
             let c' = c\<lparr>assistantMessage := assistantMessage c @ frag\<rparr>
             in (s\<lparr>messages := nextMessages c' @ [\<lparr>role = Assistant, content = assistantMessage c'\<rparr>]\<rparr>, c')))"

text \<open>One chunk (lines 404 to 422): its lines that are not blank, in order.\<close>

definition read_chunk :: "(jsstring \<Rightarrow> jsstring) \<Rightarrow> jsstring \<Rightarrow> app \<times> call \<Rightarrow> app \<times> call" where
  "read_chunk dbl chunk sc =
     fold (read_line dbl) (filter (\<lambda>line. trim line \<noteq> []) (split_on 0x0A chunk)) sc"

subsection \<open>\<open>sendMessage\<close> as a machine\<close>

text \<open>
  What happens to the component: a call of \<open>sendMessage\<close> with a reading of \<open>Date.now()\<close>,
  the outcomes of the awaits of the suspended call, and the handlers of the buttons.
\<close>

datatype event =
    Send jsstring int
  | FetchRejects
  | Responds bool bool
  | ErrorBodyRead "json option"
  | Chunk jsstring
  | Done int int
  | ReadRejects
  | Stop
  | Delete jsstring
  | Rename jsstring jsstring
  | Clear

text \<open>The beginning of \<open>sendMessage\<close>, up to the \<open>fetch\<close> (lines 359 to 383).\<close>

definition sendMessage_begin :: "jsstring \<Rightarrow> int \<Rightarrow> app \<Rightarrow> app" where
  "sendMessage_begin t now s =
     (if trim t = [] \<or> isGenerating s then s
      else
        let s1 = logActivity now (js ''Asked: \"'' @ take 30 t @ js ''...\"'') s;
            next = messages s @ [\<lparr>role = User, content = t\<rparr>]
        in s1\<lparr>messages := next @ [\<lparr>role = Assistant, content = []\<rparr>],
              status := js ''Processing...'',
              isGenerating := True,
              pending := Some \<lparr>nextMessages = next, assistantMessage = [], seenChats = chats s,
                               seenChatId = currentChatId s, awaits = Fetch\<rparr>\<rparr>)"

text \<open>The \<open>catch\<close> of \<open>sendMessage\<close> (lines 437 to 445), by the name of the error.\<close>

definition sendMessage_catch :: "jsstring \<Rightarrow> call \<Rightarrow> app \<Rightarrow> app" where
  "sendMessage_catch name c s =
     s\<lparr>status := (if name = js ''AbortError'' then js ''Cancelled''
                   else js ''Network error. Is the API running?''),
       messages := nextMessages c, isGenerating := False, pending := None\<rparr>"

text \<open>
  A response that is not ok (lines 385 to 392): \<open>dat\<close> is what \<open>response.json()\<close> gave,
  \<open>None\<close> when it failed.
\<close>

definition sendMessage_not_ok :: "json option \<Rightarrow> call \<Rightarrow> app \<Rightarrow> app" where
  "sendMessage_not_ok dat c s =
     (let d = (case dat of None \<Rightarrow> JNull | Some v \<Rightarrow> v);
          detail = (if d = JNull then JStr (js ''unknown_error'')
                    else nullish_or (js_get d (js ''detail''))
                           (nullish_or (js_get d (js ''error'')) (JStr (js ''unknown_error''))))
      in case to_js_string detail of
           None \<Rightarrow> sendMessage_catch (js ''TypeError'') c s
         | Some t \<Rightarrow>
             s\<lparr>status := js ''Error: '' @ t, messages := nextMessages c, isGenerating := False,
               pending := None\<rparr>)"

text \<open>The end of the stream (lines 425 to 435).\<close>

definition sendMessage_done :: "int \<Rightarrow> int \<Rightarrow> call \<Rightarrow> app \<Rightarrow> app" where
  "sendMessage_done now1 now2 c s =
     (let finalMessages = nextMessages c @ [\<lparr>role = Assistant, content = assistantMessage c\<rparr>];
          s1 = s\<lparr>messages := finalMessages,
                 status := (if assistantMessage c \<noteq> [] then js ''Ready'' else js ''No reply from model.''),
                 isGenerating := False, pending := None\<rparr>;
          s2 = saveChat now1 now2 finalMessages (seenChats c) (seenChatId c) s1
      in if assistantMessage c \<noteq> [] then speak (assistantMessage c) s2 else s2)"

text \<open>
  One step. An outcome that the suspended call does not await leaves the state as it is.
  \<open>Stop\<close> runs \<open>stopGenerating\<close>; the abort rejects the promise that the call awaits with
  an \<open>AbortError\<close>, and the call resumes before any other event: in its \<open>catch\<close>, or, when
  it awaits the body of a response that is not ok, with no body.
\<close>

definition step :: "(jsstring \<Rightarrow> jsstring) \<Rightarrow> event \<Rightarrow> app \<Rightarrow> app" where
  "step dbl e s =
     (case e of
        Send t now \<Rightarrow> sendMessage_begin t now s
      | Delete chatId \<Rightarrow> deleteChat chatId s
      | Rename chatId newTitle \<Rightarrow> renameChat chatId newTitle s
      | Clear \<Rightarrow> clearChat s
      | Stop \<Rightarrow>
          (case pending s of
             None \<Rightarrow> stopGenerating s
           | Some c \<Rightarrow>
               if awaits c = ErrorBody then sendMessage_not_ok None c (stopGenerating s)
               else sendMessage_catch (js ''AbortError'') c (stopGenerating s))
      | _ \<Rightarrow>
          (case pending s of
             None \<Rightarrow> s
           | Some c \<Rightarrow>
               (case (awaits c, e) of
                  (Fetch, FetchRejects) \<Rightarrow> sendMessage_catch (js ''TypeError'') c s
                | (Fetch, Responds ok body) \<Rightarrow>
                    if \<not> ok then s\<lparr>pending := Some (c\<lparr>awaits := ErrorBody\<rparr>)\<rparr>
                    else if body then s\<lparr>pending := Some (c\<lparr>awaits := Read\<rparr>)\<rparr>
                    else s\<lparr>pending := None\<rparr>
                | (ErrorBody, ErrorBodyRead dat) \<Rightarrow> sendMessage_not_ok dat c s
                | (Read, Chunk chunk) \<Rightarrow>
                    (case read_chunk dbl chunk (s, c) of (s', c') \<Rightarrow> s'\<lparr>pending := Some c'\<rparr>)
                | (Read, Done now1 now2) \<Rightarrow> sendMessage_done now1 now2 c s
                | (Read, ReadRejects) \<Rightarrow> sendMessage_catch (js ''TypeError'') c s
                | _ \<Rightarrow> s)))"

definition run :: "(jsstring \<Rightarrow> jsstring) \<Rightarrow> event list \<Rightarrow> app \<Rightarrow> app" where
  "run dbl es s = fold (step dbl) es s"

text \<open>
  The streaming client on its own: the text accumulated from the chunks of a body, in the
  order of the reads.
\<close>

definition accumulate :: "(jsstring \<Rightarrow> jsstring) \<Rightarrow> jsstring list \<Rightarrow> jsstring" where
  "accumulate dbl chunks =
     fold (\<lambda>chunk acc. fold (\<lambda>line acc. case fragment_of dbl line of None \<Rightarrow> acc | Some frag \<Rightarrow> acc @ frag)
                          (filter (\<lambda>line. trim line \<noteq> []) (split_on 0x0A chunk)) acc)
          chunks []"

subsection \<open>The data of the examples\<close>

text \<open>
  The reading of number lexemes that the examples use (none of them holds a number that is
  not a safe integer), the three lines of the body \<open>{"message":{"content":"a"}}\<close>,
  \<open>NOTJSON\<close>, \<open>{"message":{"content":"b"}}\<close>, and a saved conversation.
\<close>

definition as_written :: "jsstring \<Rightarrow> jsstring" where
  "as_written t = t"

definition line_a :: jsstring where
  "line_a = js ''{\"message\":{\"content\":\"a\"}}''"

definition line_b :: jsstring where
  "line_b = js ''{\"message\":{\"content\":\"b\"}}''"

definition example_body :: jsstring where
  "example_body = line_a @ [0x0A] @ js ''NOTJSON'' @ [0x0A] @ line_b @ [0x0A]"

definition example_chat :: Chat where
  "example_chat =
     \<lparr>chat_id = js ''1700000000000'', title = js ''Hi'',
      chat_messages = [\<lparr>role = User, content = js ''Hi''\<rparr>, \<lparr>role = Assistant, content = js ''Hello!''\<rparr>],
      createdAt = 1700000000000\<rparr>"

text \<open>
  What one line adds to the accumulated text, and a chunk that holds whole lines, each
  ended by a line feed.
\<close>

definition piece :: "(jsstring \<Rightarrow> jsstring) \<Rightarrow> jsstring \<Rightarrow> jsstring" where
  "piece dbl line = (case fragment_of dbl line of None \<Rightarrow> [] | Some frag \<Rightarrow> frag)"

definition chunk_of :: "jsstring list \<Rightarrow> jsstring" where
  "chunk_of g = concat (map (\<lambda>l. l @ [0x0A]) g)"

text \<open>The component with the saved conversation of the example opened.\<close>

definition saved_app :: app where
  "saved_app = initial_app\<lparr>messages := chat_messages example_chat,
                             chats := [example_chat], currentChatId := Some (chat_id example_chat)\<rparr>"

section \<open>Facts about strings\<close>

lemma js_Nil [simp]: "js [] = []"
  by (simp add: js_def)

lemma js_Cons: "js (c # s) = word_of_nat (of_char c) # js s"
  by (simp add: js_def)

lemma js_append: "js (a @ b) = js a @ js b"
  by (simp add: js_def)

lemma of_char_small: "of_char x < (65536 :: nat)"
proof -
  have "(of_char x :: nat) mod 256 = of_char x" by (rule of_char_mod_256)
  moreover have "(of_char x :: nat) mod 256 < 256" by simp
  ultimately show ?thesis by linarith
qed

lemma unit_of_char_inject:
  "(word_of_nat (of_char c) :: 16 word) = word_of_nat (of_char d) \<longleftrightarrow> c = d"
  using of_char_small [of c] of_char_small [of d]
  by (simp add: word_of_nat_eq_iff take_bit_nat_eq_self)

lemma js_eq_iff [simp]: "js a = js b \<longleftrightarrow> a = b"
proof (induction a arbitrary: b)
  case Nil
  then show ?case by (cases b) (simp_all add: js_def)
next
  case (Cons c a)
  then show ?case by (cases b) (auto simp: js_Cons unit_of_char_inject)
qed

lemma js_eq_Nil [simp]: "js a = [] \<longleftrightarrow> a = []" "[] = js a \<longleftrightarrow> a = []"
  by (auto simp: js_def)

section \<open>The history that the relay forwards\<close>

lemma drop_first_index:
  "map snd (filter (\<lambda>(index, _). index > 0) (zip [k ..< k + length xs] xs)) =
     (if k = 0 then tl xs else xs)"
proof (induction xs arbitrary: k)
  case Nil
  then show ?case by simp
next
  case (Cons x xs)
  have "[k ..< k + length (x # xs)] = k # [Suc k ..< Suc k + length xs]"
    by (subst upt_rec) simp
  then show ?case using Cons.IH [of "Suc k"] by simp
qed

text \<open>The check of the leading entry drops that entry alone, whatever follows it.\<close>

lemma ensure_user_first_eq:
  "ensure_user_first h = (if h \<noteq> [] \<and> role_of (hd h) \<noteq> RoleUser then tl h else h)"
  using drop_first_index [of 0 h] by (simp add: ensure_user_first_def)

lemma trim_letter: "trim (js ''a'') = js ''a''" "trim (js ''b'') = js ''b''"
  by (simp_all add: trim_def js_def js_whitespace_def)

text \<open>
  Claim C1 says that, after the roles are mapped and the empty turns dropped, the whole
  leading run of turns that are not user turns is dropped, so that the forwarded history is
  empty or begins with a user turn. The code drops the first entry only: for the turns
  \<open>assistant "a"\<close>, \<open>assistant "b"\<close>, \<open>user "q"\<close> the history is the two assistant turns, and
  the history forwarded is the single entry \<open>model "b"\<close>, which is not a user entry.
\<close>

theorem convert_history_two_leading_assistant_turns:
  "convert_history [turn ''assistant'' ''a'', turn ''assistant'' ''b'', turn ''user'' ''q'']
     = Inr [Content RoleModel [Some (JStr (js ''b''))]]"
  by (simp add: convert_history_def turn_def to_content_def ensure_user_first_eq trim_letter)

text \<open>
  Claim C5: a history whose first entry has the role user is returned unchanged by the
  check of the leading entry, so that checking it again changes nothing either.
\<close>

theorem ensure_user_first_valid:
  assumes "h \<noteq> []" and "role_of (hd h) = RoleUser"
  shows "ensure_user_first h = h \<and> ensure_user_first (ensure_user_first h) = ensure_user_first h"
proof -
  have "ensure_user_first h = h"
    using assms by (simp add: ensure_user_first_eq)
  then show ?thesis by simp
qed

theorem ensure_user_first_valid_witness:
  "[Content RoleUser [Some (JStr (js ''q''))], Content RoleModel [Some (JStr (js ''a''))]] \<noteq> []
   \<and> role_of (hd [Content RoleUser [Some (JStr (js ''q''))], Content RoleModel [Some (JStr (js ''a''))]]) = RoleUser
   \<and> ensure_user_first [Content RoleUser [Some (JStr (js ''q''))], Content RoleModel [Some (JStr (js ''a''))]]
       = [Content RoleUser [Some (JStr (js ''q''))], Content RoleModel [Some (JStr (js ''a''))]]"
  using ensure_user_first_valid
    [of "[Content RoleUser [Some (JStr (js ''q''))], Content RoleModel [Some (JStr (js ''a''))]]"]
  by simp

section \<open>The guards of the relay\<close>

text \<open>
  Claim C2 says that without the credential the answer is the status 500 with the body
  \<open>gemini_not_configured\<close> whatever \<open>messages\<close> holds. The guard on \<open>messages\<close> comes first:
  a \<open>messages\<close> that is not an array is answered 400.
\<close>

theorem chat_without_key_not_array:
  "chat without_key hello_backend monday (Some (JObj [(js ''messages'', JStr (js ''Hi''))]))
   = (Json 400 (JObj [(js ''error'', JStr (js ''messages must be an array''))]), [])"
  by (simp add: chat_def without_key_def)

text \<open>
  Claim C2 as amended: whenever the credential is not set (or is the empty string), a
  request whose \<open>messages\<close> is an array is answered 500 with the body
  \<open>{error: "gemini_not_configured", detail: "GEMINI_API_KEY environment variable is not set"}\<close>,
  whatever the array holds, and a request whose \<open>messages\<close> is not an array is answered 400
  with \<open>{error: "messages must be an array"}\<close>; in both cases no call is made to the backend.
\<close>

theorem chat_without_key:
  assumes "GEMINI_API_KEY ev = None \<or> GEMINI_API_KEY ev = Some []"
  shows "chat ev be now body =
     (case js_get (nullish_or body (JObj [])) (js ''messages'') of
        Some (JArr msgs) \<Rightarrow> (Json 500 not_configured, [])
      | _ \<Rightarrow> (Json 400 (JObj [(js ''error'', JStr (js ''messages must be an array''))]), []))"
  using assms by (auto simp: chat_def Let_def split: option.splits json.splits)

theorem chat_without_key_witness:
  "GEMINI_API_KEY without_key = None
   \<and> chat without_key hello_backend monday (request [turn ''user'' ''Hi''] JNull True)
       = (Json 500
            (JObj [(js ''error'', JStr (js ''gemini_not_configured'')),
                   (js ''detail'', JStr (js ''GEMINI_API_KEY environment variable is not set''))]),
          [])"
  using chat_without_key [of without_key hello_backend monday "request [turn ''user'' ''Hi''] JNull True"]
  by (simp add: without_key_def request_def not_configured_def)

section \<open>\<open>JSON.parse\<close> reads back what \<open>JSON.stringify\<close> writes\<close>

subsection \<open>Strings\<close>

declare decimal.simps [simp del]

lemma uint_small: "0 \<le> k \<Longrightarrow> k < 65536 \<Longrightarrow> uint (word_of_int k :: 16 word) = k"
  by (simp add: uint_word_of_int_eq take_bit_int_eq_self)

lemma uint_bound: "uint (c :: 16 word) < 65536" "0 \<le> uint c"
  using uint_lt2p [of c] by simp_all

lemma uint_hex_unit:
  assumes "0 \<le> d" "d < 16"
  shows "uint (hex_unit d) = (if d < 10 then 48 + d else 87 + d)"
proof (cases "d < 10")
  case True
  have "uint (word_of_int (48 + d) :: 16 word) = 48 + d"
    using assms by (intro uint_small) auto
  with True show ?thesis by (simp only: hex_unit_def if_True)
next
  case False
  have "uint (word_of_int (87 + d) :: 16 word) = 87 + d"
    using assms by (intro uint_small) auto
  with False show ?thesis by (simp only: hex_unit_def if_False)
qed

lemma hex_value_uint:
  "hex_value c =
     (if 48 \<le> uint c \<and> uint c \<le> 57 then Some (uint c - 48)
      else if 97 \<le> uint c \<and> uint c \<le> 102 then Some (uint c - 87)
      else if 65 \<le> uint c \<and> uint c \<le> 70 then Some (uint c - 55)
      else None)"
  by (simp add: hex_value_def word_le_def)

lemma hex_value_hex_unit: "0 \<le> d \<Longrightarrow> d < 16 \<Longrightarrow> hex_value (hex_unit d) = Some d"
  by (simp add: hex_value_uint uint_hex_unit)

lemma hex_digits_of_unit:
  fixes u :: int
  assumes "0 \<le> u" "u < 65536"
  shows "0 \<le> u div 4096" "u div 4096 < 16"
    and "u div 4096 * 4096 + u div 256 mod 16 * 256 + u div 16 mod 16 * 16 + u mod 16 = u"
proof -
  have e1: "u div 16 * 16 + u mod 16 = u" by (rule div_mult_mod_eq)
  have "u div 256 = u div 16 div 16" using zdiv_zmult2_eq [of 16 u 16] by simp
  then have e2: "u div 256 * 16 + u div 16 mod 16 = u div 16"
    using div_mult_mod_eq [of "u div 16" 16] by simp
  have "u div 4096 = u div 256 div 16" using zdiv_zmult2_eq [of 16 u 256] by simp
  then have e3: "u div 4096 * 16 + u div 256 mod 16 = u div 256"
    using div_mult_mod_eq [of "u div 256" 16] by simp
  show "u div 4096 * 4096 + u div 256 mod 16 * 256 + u div 16 mod 16 * 16 + u mod 16 = u"
    using e1 e2 e3 by linarith
  have m: "0 \<le> u mod 4096" "u mod 4096 < 4096" by simp_all
  have d: "u div 4096 * 4096 + u mod 4096 = u" by (rule div_mult_mod_eq)
  show "0 \<le> u div 4096" using assms m d by linarith
  show "u div 4096 < 16" using assms m d by linarith
qed

lemma hex4_unicode_escape:
  "hex4 (hex_unit (uint c div 4096)) (hex_unit (uint c div 256 mod 16))
        (hex_unit (uint c div 16 mod 16)) (hex_unit (uint c mod 16)) = Some c"
proof -
  note h = hex_digits_of_unit [OF uint_bound(2) uint_bound(1), of c]
  have v3: "hex_value (hex_unit (uint c div 4096)) = Some (uint c div 4096)"
    by (rule hex_value_hex_unit) (rule h)+
  have v2: "hex_value (hex_unit (uint c div 256 mod 16)) = Some (uint c div 256 mod 16)"
    by (rule hex_value_hex_unit) simp_all
  have v1: "hex_value (hex_unit (uint c div 16 mod 16)) = Some (uint c div 16 mod 16)"
    by (rule hex_value_hex_unit) simp_all
  have v0: "hex_value (hex_unit (uint c mod 16)) = Some (uint c mod 16)"
    by (rule hex_value_hex_unit) simp_all
  show ?thesis
    by (simp only: hex4_def v0 v1 v2 v3 prod.case option.case h(3) word_of_int_uint)
qed

lemma parse_chars_plain:
  "c \<noteq> 0x22 \<Longrightarrow> c \<noteq> 0x5C \<Longrightarrow> \<not> c < 0x20 \<Longrightarrow>
   parse_chars (c # r) = (case parse_chars r of None \<Rightarrow> None | Some (str, r') \<Rightarrow> Some (c # str, r'))"
  by simp

lemma parse_chars_unicode_escape:
  "parse_chars (unicode_escape c @ r) = (case parse_chars r of None \<Rightarrow> None | Some (str, r') \<Rightarrow> Some (c # str, r'))"
  by (simp add: unicode_escape_def hex4_unicode_escape)

lemma parse_chars_quote_unit:
  "parse_chars (quote_units [c] @ r) = (case parse_chars r of None \<Rightarrow> None | Some (str, r') \<Rightarrow> Some (c # str, r'))"
proof -
  consider "c = 0x22" | "c = 0x5C" | "c = 0x08" | "c = 0x09" | "c = 0x0A" | "c = 0x0C" | "c = 0x0D"
    | "c \<notin> {0x22, 0x5C, 0x08, 0x09, 0x0A, 0x0C, 0x0D}" "c < 0x20 \<or> high_surrogate c \<or> low_surrogate c"
    | "c \<notin> {0x22, 0x5C, 0x08, 0x09, 0x0A, 0x0C, 0x0D}" "\<not> (c < 0x20 \<or> high_surrogate c \<or> low_surrogate c)"
    by blast
  then show ?thesis
  proof cases
    case 1 show ?thesis unfolding 1 by (simp add: unescape_def)
  next
    case 2 show ?thesis unfolding 2 by (simp add: unescape_def)
  next
    case 3 show ?thesis unfolding 3 by (simp add: unescape_def)
  next
    case 4 show ?thesis unfolding 4 by (simp add: unescape_def)
  next
    case 5 show ?thesis unfolding 5 by (simp add: unescape_def)
  next
    case 6 show ?thesis unfolding 6 by (simp add: unescape_def)
  next
    case 7 show ?thesis unfolding 7 by (simp add: unescape_def)
  next
    case 8
    then have "quote_units [c] = unicode_escape c" by simp
    then show ?thesis using parse_chars_unicode_escape [of c r] by (simp del: quote_units.simps)
  next
    case 9
    then have q: "quote_units [c] = [c]" by simp
    from 9 have "c \<noteq> 0x22" "c \<noteq> 0x5C" "\<not> c < 0x20" by simp_all
    then show ?thesis unfolding q using parse_chars_plain [of c r] by (simp del: parse_chars.simps)
  qed
qed

lemma surrogate_plain:
  "high_surrogate c \<or> low_surrogate c \<Longrightarrow> c \<noteq> 0x22 \<and> c \<noteq> 0x5C \<and> \<not> c < 0x20"
  by (auto simp: high_surrogate_def low_surrogate_def word_le_def word_less_def)

lemma parse_chars_quote_units:
  "parse_chars (quote_units s @ 0x22 # r) = Some (s, r)"
proof (induction s rule: quote_units.induct)
  case 1
  show ?case by simp
next
  case (2 c)
  show ?case using parse_chars_quote_unit [of c "0x22 # r"] by (simp del: quote_units.simps)
next
  case (3 c d ds)
  show ?case
  proof (cases "high_surrogate c \<and> low_surrogate d")
    case True
    then have "c \<noteq> 0x22 \<and> c \<noteq> 0x5C \<and> \<not> c < 0x20" "d \<noteq> 0x22 \<and> d \<noteq> 0x5C \<and> \<not> d < 0x20"
      using surrogate_plain by blast+
    moreover have "parse_chars (quote_units ds @ 0x22 # r) = Some (ds, r)"
      using True 3 by blast
    moreover have "quote_units (c # d # ds) = c # d # quote_units ds"
      using True by simp
    ultimately show ?thesis by (simp del: quote_units.simps)
  next
    case False
    then have "quote_units (c # d # ds) = quote_units [c] @ quote_units (d # ds)"
      by (simp only: quote_units.simps(3) if_False)
    moreover have "parse_chars (quote_units (d # ds) @ 0x22 # r) = Some (d # ds, r)"
      using False 3 by blast
    ultimately show ?thesis
      using parse_chars_quote_unit [of c "quote_units (d # ds) @ 0x22 # r"]
      by (simp del: quote_units.simps)
  qed
qed

subsection \<open>Integers\<close>

lemma uint_digit_unit: "0 \<le> d \<Longrightarrow> d < 10 \<Longrightarrow> uint (digit_unit d) = 48 + d"
proof -
  assume a: "0 \<le> d" "d < 10"
  have "uint (word_of_int (48 + d) :: 16 word) = 48 + d"
    using a by (intro uint_small) auto
  then show ?thesis by (simp only: digit_unit_def)
qed

lemma is_digit_uint: "is_digit c \<longleftrightarrow> 48 \<le> uint c \<and> uint c \<le> 57"
  by (simp add: is_digit_def word_le_def)

lemma is_digit_digit_unit: "0 \<le> d \<Longrightarrow> d < 10 \<Longrightarrow> is_digit (digit_unit d)"
  by (simp add: is_digit_uint uint_digit_unit)

lemma decimal_digits: "0 \<le> n \<Longrightarrow> list_all is_digit (decimal n) \<and> decimal n \<noteq> []"
proof (induction n rule: decimal.induct)
  case (1 n)
  show ?case
  proof (cases "n < 10")
    case True
    then show ?thesis using 1 by (subst decimal.simps, subst (2) decimal.simps) (simp add: is_digit_digit_unit)
  next
    case False
    then have "0 \<le> n div 10" using 1(2) by simp
    then have "list_all is_digit (decimal (n div 10))" using 1(1) False by simp
    moreover have "is_digit (digit_unit (n mod 10))" by (rule is_digit_digit_unit) simp_all
    ultimately show ?thesis using False by (subst decimal.simps, subst (2) decimal.simps) simp
  qed
qed

lemma digits_value_snoc: "digits_value (ds @ [d]) = 10 * digits_value ds + (uint d - 48)"
  by (simp add: digits_value_def)

lemma digits_value_decimal: "0 \<le> n \<Longrightarrow> digits_value (decimal n) = n"
proof (induction n rule: decimal.induct)
  case (1 n)
  show ?case
  proof (cases "n < 10")
    case True
    then have "decimal n = [digit_unit n]" by (subst decimal.simps) simp
    then show ?thesis using True 1(2) by (simp add: digits_value_def uint_digit_unit)
  next
    case False
    then have d: "decimal n = decimal (n div 10) @ [digit_unit (n mod 10)]" by (subst decimal.simps) simp
    have "0 \<le> n div 10" using 1(2) by simp
    then have "digits_value (decimal (n div 10)) = n div 10" using 1(1) False by simp
    moreover have "uint (digit_unit (n mod 10)) = 48 + n mod 10" by (rule uint_digit_unit) simp_all
    ultimately show ?thesis unfolding d digits_value_snoc by simp
  qed
qed

lemma decimal_head: "0 \<le> n \<Longrightarrow> hd (decimal n) = 0x30 \<longleftrightarrow> n = 0"
proof (induction n rule: decimal.induct)
  case (1 n)
  show ?case
  proof (cases "n < 10")
    case True
    then have d: "decimal n = [digit_unit n]" by (subst decimal.simps) simp
    have "uint (digit_unit n) = 48 + n" using True 1(2) by (rule_tac uint_digit_unit)
    then have "digit_unit n = 0x30 \<longleftrightarrow> n = 0"
      by (simp add: word_uint_eq_iff)
    then show ?thesis unfolding d by simp
  next
    case False
    then have d: "decimal n = decimal (n div 10) @ [digit_unit (n mod 10)]" by (subst decimal.simps) simp
    have nn: "0 \<le> n div 10" using 1(2) by simp
    then have "decimal (n div 10) \<noteq> []" using decimal_digits by blast
    then have "hd (decimal n) = hd (decimal (n div 10))" unfolding d by simp
    moreover have "n div 10 \<noteq> 0" using False 1(2) by simp
    ultimately show ?thesis using 1(1) False nn by simp
  qed
qed

lemma follow_facts:
  assumes "follow r"
  shows "takeWhile is_digit r = []" "dropWhile is_digit r = r"
    and "lex_frac r = Some ([], r)" "lex_exp r = Some ([], r)"
proof -
  show "takeWhile is_digit r = []" "dropWhile is_digit r = r" "lex_exp r = Some ([], r)"
    using assms by (cases r; auto simp: follow_def is_digit_def json_ws_def lex_exp_def)+
  show "lex_frac r = Some ([], r)"
  proof (cases r)
    case Nil
    then show ?thesis by (simp add: lex_frac_def)
  next
    case (Cons c cs)
    then have "c \<noteq> 0x2E" using assms by (auto simp: follow_def json_ws_def)
    then show ?thesis using Cons by (cases cs) (simp_all add: lex_frac_def)
  qed
qed

lemma lex_int_decimal:
  assumes "0 \<le> n" "follow r"
  shows "lex_int (decimal n @ r) = Some (decimal n, r)"
proof -
  obtain c ds where d: "decimal n = c # ds" using decimal_digits [OF assms(1)] by (cases "decimal n") auto
  have dig: "is_digit c" "\<forall>x \<in> set ds. is_digit x"
    using decimal_digits [OF assms(1)] d by (simp_all add: list_all_iff)
  show ?thesis
  proof (cases "c = 0x30")
    case True
    then have "n = 0" using decimal_head [OF assms(1)] d by simp
    then have "decimal n = [0x30]" by (subst decimal.simps) (simp add: digit_unit_def)
    then show ?thesis by (simp add: lex_int_def)
  next
    case False
    have "takeWhile is_digit (ds @ r) = ds" "dropWhile is_digit (ds @ r) = r"
      using dig(2) follow_facts(1,2) [OF assms(2)] by (simp_all add: takeWhile_append2 dropWhile_append2)
    then show ?thesis using False dig(1) d by (simp add: lex_int_def)
  qed
qed

lemma decimal_not_minus: "0 \<le> n \<Longrightarrow> decimal n \<noteq> [] \<and> hd (decimal n) \<noteq> 0x2D"
proof -
  assume a: "0 \<le> n"
  then obtain c ds where d: "decimal n = c # ds" using decimal_digits [OF a] by (cases "decimal n") auto
  then have "is_digit c" using decimal_digits [OF a] by simp
  then have "c \<noteq> 0x2D" by (auto simp: is_digit_uint)
  then show ?thesis using d by simp
qed

lemma lex_number_int_decimal:
  assumes "follow r"
  shows "lex_number (int_decimal n @ r) = Some ((n < 0, decimal \<bar>n\<bar>, [], []), r)"
proof (cases "n < 0")
  case True
  then have "lex_int (decimal (- n) @ r) = Some (decimal (- n), r)"
    using assms by (intro lex_int_decimal) simp_all
  then show ?thesis
    using True follow_facts(3,4) [OF assms] by (simp add: lex_number_def int_decimal_def)
next
  case False
  then have nn: "0 \<le> n" by simp
  then have "lex_int (decimal n @ r) = Some (decimal n, r)"
    using assms by (intro lex_int_decimal) simp_all
  moreover have "decimal n @ r \<noteq> []" "hd (decimal n @ r) \<noteq> 0x2D"
    using decimal_not_minus [OF nn] by simp_all
  ultimately show ?thesis
    using False nn follow_facts(3,4) [OF assms] by (simp add: lex_number_def int_decimal_def)
qed

lemma number_value_int_decimal:
  "safe_integer n \<Longrightarrow> number_value dbl (n < 0, decimal \<bar>n\<bar>, [], []) = JNum n"
  by (simp add: number_value_def digits_value_decimal)

lemma int_decimal_head:
  "\<exists>c cs. int_decimal n = c # cs \<and> (c = 0x2D \<or> is_digit c)"
proof (cases "n < 0")
  case True
  then show ?thesis by (simp add: int_decimal_def)
next
  case False
  then have nn: "0 \<le> n" by simp
  then obtain c ds where d: "decimal n = c # ds" using decimal_digits [OF nn] by (cases "decimal n") auto
  then have "is_digit c" using decimal_digits [OF nn] by simp
  then show ?thesis using False d by (simp add: int_decimal_def)
qed

lemma number_head:
  assumes "c = 0x2D \<or> is_digit c"
  shows "\<not> json_ws c" "c \<noteq> 0x22" "c \<noteq> 0x5B" "c \<noteq> 0x7B" "c \<noteq> 0x74" "c \<noteq> 0x66" "c \<noteq> 0x6E"
    "c \<noteq> 0x5D" "c \<noteq> 0x7D" "c \<noteq> 0x2C"
  using assms by (auto simp: is_digit_uint json_ws_def)

lemma parse_value_number:
  assumes "follow r" "safe_integer n"
  shows "parse_value dbl (Suc k) (int_decimal n @ r) = Some (JNum n, r)"
proof -
  obtain c cs where h: "int_decimal n = c # cs" "c = 0x2D \<or> is_digit c"
    using int_decimal_head by blast
  note nh = number_head [OF h(2)]
  have sk: "skip_ws (int_decimal n @ r) = c # (cs @ r)"
    using h(1) nh(1) by (simp add: skip_ws_def)
  have "lex_number (c # (cs @ r)) = Some ((n < 0, decimal \<bar>n\<bar>, [], []), r)"
    using lex_number_int_decimal [OF assms(1), of n] h(1) by simp
  then show ?thesis
    using nh number_value_int_decimal [OF assms(2), of dbl]
    by (simp only: parse_value.simps sk list.case if_False option.case prod.case)
qed

subsection \<open>Values\<close>

lemma literal_append: "literal w (w @ r) = Some r"
  by (simp add: literal_def)

lemma js_units:
  "js ''null'' = [0x6E, 0x75, 0x6C, 0x6C]"
  "js ''true'' = [0x74, 0x72, 0x75, 0x65]"
  "js ''false'' = [0x66, 0x61, 0x6C, 0x73, 0x65]"
  by (simp_all add: js_def)

lemma stringify_head:
  assumes "wf_json v"
  shows "\<exists>c cs. stringify v = c # cs \<and> \<not> json_ws c \<and> c \<noteq> 0x5D \<and> c \<noteq> 0x7D"
proof (cases v)
  case (JNum n)
  obtain c cs where h: "int_decimal n = c # cs" "c = 0x2D \<or> is_digit c"
    using int_decimal_head by blast
  then show ?thesis using JNum number_head [OF h(2)] by simp
next
  case (JDbl t)
  then show ?thesis using assms by simp
qed (simp_all add: js_units json_ws_def quote_json_def)

lemma join_commas_Cons: "xs \<noteq> [] \<Longrightarrow> join_commas (x # xs) = x @ 0x2C # join_commas xs"
  by (cases xs) simp_all

lemma follow_close: "follow (0x2C # r)" "follow (0x5D # r)" "follow (0x7D # r)"
  by (simp_all add: follow_def)

lemma skip_ws_close:
  "skip_ws (0x2C # r) = 0x2C # r" "skip_ws (0x5D # r) = 0x5D # r" "skip_ws (0x7D # r) = 0x7D # r"
  "skip_ws (0x22 # r) = 0x22 # r" "skip_ws (0x3A # r) = 0x3A # r"
  "skip_ws (0x5B # r) = 0x5B # r" "skip_ws (0x7B # r) = 0x7B # r"
  by (simp_all add: skip_ws_def json_ws_def)

lemma parse_elements_join:
  assumes "vs \<noteq> []"
    and "\<And>v n r. v \<in> set vs \<Longrightarrow> follow r \<Longrightarrow> length (stringify v) \<le> n \<Longrightarrow>
           parse_value dbl n (stringify v @ r) = Some (v, r)"
    and "Suc (length (join_commas (map stringify vs))) \<le> n"
  shows "parse_elements dbl n (join_commas (map stringify vs) @ 0x5D # r) = Some (vs, r)"
  using assms
proof (induction vs arbitrary: n rule: list_nonempty_induct)
  case (single v)
  then obtain k where n: "n = Suc k" "length (stringify v) \<le> k" by (cases n) auto
  have "parse_value dbl k (stringify v @ 0x5D # r) = Some (v, r')" if "r' = 0x5D # r" for r'
    using single(1) [of v "0x5D # r" k] n(2) that by (simp add: follow_close)
  then show ?case
    unfolding n(1) by (simp add: skip_ws_close)
next
  case (cons v vs)
  let ?J = "join_commas (map stringify vs)"
  have j: "join_commas (map stringify (v # vs)) = stringify v @ 0x2C # ?J"
    using cons(1) by (simp add: join_commas_Cons)
  from cons(4) obtain k where n: "n = Suc k" "length (stringify v) \<le> k" "Suc (length ?J) \<le> k"
    unfolding j by (cases n) auto
  have v: "parse_value dbl k (stringify v @ 0x2C # ?J @ 0x5D # r) = Some (v, 0x2C # ?J @ 0x5D # r)"
    using cons(3) [of v "0x2C # ?J @ 0x5D # r" k] n(2) by (simp add: follow_close)
  have rest: "parse_elements dbl k (?J @ 0x5D # r) = Some (vs, r)"
    using cons(2) [of k] cons(3) n(3) by simp
  show ?case
    unfolding n(1) j by (simp add: v rest skip_ws_close)
qed

lemma parse_members_join:
  assumes "kvs \<noteq> []"
    and "\<And>k v n r. (k, v) \<in> set kvs \<Longrightarrow> follow r \<Longrightarrow> length (stringify v) \<le> n \<Longrightarrow>
           parse_value dbl n (stringify v @ r) = Some (v, r)"
    and "Suc (length (join_commas (map (\<lambda>(k, v). quote_json k @ 0x3A # stringify v) kvs))) \<le> n"
  shows "parse_members dbl n (join_commas (map (\<lambda>(k, v). quote_json k @ 0x3A # stringify v) kvs) @ 0x7D # r)
           = Some (kvs, r)"
  using assms
proof (induction kvs arbitrary: n rule: list_nonempty_induct)
  case (single kv)
  obtain key v where kv: "kv = (key, v)" by (cases kv)
  from single(2) obtain k where n: "n = Suc k" "length (stringify v) \<le> k"
    unfolding kv by (cases n) auto
  have v: "parse_value dbl k (stringify v @ 0x7D # r) = Some (v, 0x7D # r)"
    using single(1) [of key v "0x7D # r" k] n(2) kv by (simp add: follow_close)
  have key: "parse_chars (quote_units key @ 0x22 # 0x3A # stringify v @ 0x7D # r)
               = Some (key, 0x3A # stringify v @ 0x7D # r)"
    by (rule parse_chars_quote_units)
  show ?case
    unfolding n(1) kv
    by (simp add: quote_json_def skip_ws_close expect_def key v)
next
  case (cons kv kvs)
  obtain key v where kv: "kv = (key, v)" by (cases kv)
  let ?J = "join_commas (map (\<lambda>(k, v). quote_json k @ 0x3A # stringify v) kvs)"
  have j: "join_commas (map (\<lambda>(k, v). quote_json k @ 0x3A # stringify v) (kv # kvs))
             = (quote_json key @ 0x3A # stringify v) @ 0x2C # ?J"
    using cons(1) kv by (simp add: join_commas_Cons)
  have s: "join_commas (map (\<lambda>(k, v). quote_json k @ 0x3A # stringify v) (kv # kvs)) @ 0x7D # r
             = 0x22 # quote_units key @ 0x22 # 0x3A # stringify v @ 0x2C # ?J @ 0x7D # r"
    unfolding j by (simp add: quote_json_def)
  from cons(4) obtain k where n: "n = Suc k" "length (stringify v) \<le> k" "Suc (length ?J) \<le> k"
    unfolding j by (cases n) auto
  have v: "parse_value dbl k (stringify v @ 0x2C # ?J @ 0x7D # r) = Some (v, 0x2C # ?J @ 0x7D # r)"
    using cons(3) [of key v "0x2C # ?J @ 0x7D # r" k] n(2) kv by (simp add: follow_close)
  have key: "parse_chars (quote_units key @ 0x22 # 0x3A # stringify v @ 0x2C # ?J @ 0x7D # r)
               = Some (key, 0x3A # stringify v @ 0x2C # ?J @ 0x7D # r)"
    by (rule parse_chars_quote_units)
  have rest: "parse_members dbl k (?J @ 0x7D # r) = Some (kvs, r)"
    by (rule cons(2)) (auto intro!: cons(3) simp: n(3))
  show ?case
    unfolding n(1) s
    by (simp add: skip_ws_close expect_def key v rest kv)
qed

lemma set_property_new: "fst kv \<notin> fst ` set ps \<Longrightarrow> set_property kv ps = ps @ [kv]"
  by (induction ps) auto

lemma fold_set_property: "distinct (map fst (acc @ kvs)) \<Longrightarrow> fold set_property kvs acc = acc @ kvs"
proof (induction kvs arbitrary: acc)
  case Nil
  then show ?case by simp
next
  case (Cons kv kvs)
  have "set_property kv acc = acc @ [kv]"
    using Cons.prems by (intro set_property_new) auto
  then show ?case using Cons.IH [of "acc @ [kv]"] Cons.prems by simp
qed

lemma object_of_distinct: "distinct (map fst kvs) \<Longrightarrow> object_of kvs = JObj kvs"
  using fold_set_property [of "[]" kvs] by (simp add: object_of_def)

lemma parse_value_stringify:
  "wf_json v \<Longrightarrow> follow r \<Longrightarrow> length (stringify v) \<le> n \<Longrightarrow>
   parse_value dbl n (stringify v @ r) = Some (v, r)"
proof (induction v arbitrary: n r)
  case JNull
  then obtain k where "n = Suc k" by (cases n) (auto simp: js_units)
  then show ?case
    using literal_append [of "js ''null''" r]
    by (simp add: js_units skip_ws_def json_ws_def)
next
  case (JBool b)
  then obtain k where "n = Suc k" by (cases n) (auto simp: js_units split: if_splits)
  then show ?case
    using literal_append [of "js ''true''" r] literal_append [of "js ''false''" r]
    by (simp add: js_units skip_ws_def json_ws_def)
next
  case (JNum m)
  have "int_decimal m \<noteq> []" using int_decimal_head [of m] by auto
  with JNum obtain k where "n = Suc k" by (cases n) auto
  then show ?case using JNum parse_value_number [of r m dbl k] by simp
next
  case (JDbl t)
  then show ?case by simp
next
  case (JStr t)
  then obtain k where "n = Suc k" by (cases n) (auto simp: quote_json_def)
  then show ?case
    using parse_chars_quote_units [of t r]
    by (simp add: quote_json_def skip_ws_close)
next
  case (JArr vs)
  let ?J = "join_commas (map stringify vs)"
  from JArr(4) obtain k where n: "n = Suc k" "Suc (length ?J) \<le> k" by (cases n) auto
  show ?case
  proof (cases "vs = []")
    case True
    then show ?thesis unfolding n(1) by (simp add: skip_ws_close expect_def)
  next
    case False
    then obtain v ws where vs: "vs = v # ws" by (cases vs) auto
    obtain c cs where h: "stringify v = c # cs" "\<not> json_ws c" "c \<noteq> 0x5D"
      using stringify_head [of v] JArr(2) vs by auto
    have "?J = c # cs @ (if ws = [] then [] else 0x2C # join_commas (map stringify ws))"
      using vs h(1) by (cases ws) simp_all
    then obtain js where j: "?J = c # js" by blast
    have e: "expect 0x5D (skip_ws (?J @ 0x5D # r)) = None"
      unfolding j using h(2,3) by (simp add: skip_ws_def expect_def)
    have "parse_elements dbl k (?J @ 0x5D # r) = Some (vs, r)"
      using False JArr(1) JArr(2) n(2) by (intro parse_elements_join) auto
    then show ?thesis
      unfolding n(1) using e by (simp add: skip_ws_def json_ws_def)
  qed
next
  case (JObj kvs)
  let ?J = "join_commas (map (\<lambda>(k, v). quote_json k @ 0x3A # stringify v) kvs)"
  from JObj(4) obtain k where n: "n = Suc k" "Suc (length ?J) \<le> k" by (cases n) auto
  show ?case
  proof (cases "kvs = []")
    case True
    then show ?thesis unfolding n(1) by (simp add: skip_ws_close expect_def)
  next
    case False
    then obtain kv ws where kvs: "kvs = kv # ws" by (cases kvs) auto
    obtain js where j: "?J = 0x22 # js"
      unfolding kvs by (cases kv; cases ws) (simp_all add: quote_json_def)
    have e: "expect 0x7D (skip_ws (?J @ 0x7D # r)) = None"
      unfolding j by (simp add: skip_ws_def json_ws_def expect_def)
    have ih: "parse_value dbl n' (stringify v @ r') = Some (v, r')"
      if "(key, v) \<in> set kvs" "follow r'" "length (stringify v) \<le> n'" for key v n' r'
    proof -
      have "wf_json v" using JObj(2) that(1) by auto
      moreover have "v \<in> Basic_BNFs.snds (key, v)" by simp
      ultimately show ?thesis using JObj(1) [OF that(1)] that(2,3) by blast
    qed
    have "parse_members dbl k (?J @ 0x7D # r) = Some (kvs, r)"
      using False n(2) ih by (intro parse_members_join) auto
    moreover have "object_of kvs = JObj kvs"
      using JObj(2) by (simp add: object_of_distinct)
    ultimately show ?thesis
      unfolding n(1) using e by (simp add: skip_ws_def json_ws_def)
  qed
qed

lemma JSON_parse_stringify: "wf_json v \<Longrightarrow> JSON_parse dbl (stringify v) = Some v"
  using parse_value_stringify [of v "[]" "Suc (length (stringify v))" dbl]
  by (simp add: JSON_parse_def follow_def skip_ws_def)

section \<open>The conversations in the storage\<close>

lemma wf_chats_json:
  assumes "\<forall>c \<in> set cs. safe_integer (createdAt c)"
  shows "wf_json (chats_json cs)"
  using assms by (auto simp: chats_json_def chat_json_def message_json_def role_json_def)

lemma role_json_inject: "role_json a = role_json b \<Longrightarrow> a = b"
  by (cases a; cases b) (simp_all add: role_json_def)

lemma message_json_inject: "message_json a = message_json b \<Longrightarrow> a = b"
  by (cases a; cases b) (auto simp: message_json_def dest: role_json_inject)

lemma messages_json_inject: "map message_json a = map message_json b \<Longrightarrow> a = b"
  by (induction a arbitrary: b) (auto dest: message_json_inject)

lemma chat_json_inject: "chat_json a = chat_json b \<Longrightarrow> a = b"
  by (cases a; cases b) (auto simp: chat_json_def dest: messages_json_inject)

text \<open>Two collections with the same JavaScript value are the same collection.\<close>

lemma chats_json_inject: "chats_json a = chats_json b \<Longrightarrow> a = b"
  unfolding chats_json_def by (induction a arbitrary: b) (auto dest: chat_json_inject)

text \<open>
  Claim C6: for every collection of conversations, the empty one included, whose
  \<open>createdAt\<close> are safe integers (they are readings of \<open>Date.now()\<close>), loading after saving
  returns the value of the collection that was saved, and of no other collection; after the
  save the storage holds the JSON text of the collection, and after \<open>setChats\<close> what the
  storage loads is the value of the \<open>chats\<close> in memory.
\<close>

theorem save_then_load:
  assumes "\<forall>c \<in> set cs. safe_integer (createdAt c)"
  shows "load_chats dbl (save_chats cs store) = chats_json cs
       \<and> save_chats cs store (js ''avas-chats'') = Some (stringify (chats_json cs))
       \<and> load_chats dbl (localStorage (setChats cs s)) = chats_json (chats (setChats cs s))
       \<and> (\<forall>cs'. load_chats dbl (save_chats cs store) = chats_json cs' \<longrightarrow> cs' = cs)"
proof -
  have p: "JSON_parse dbl (stringify (chats_json cs)) = Some (chats_json cs)"
    using wf_chats_json [OF assms] by (rule JSON_parse_stringify)
  have n: "stringify (chats_json cs) \<noteq> []"
    by (simp add: chats_json_def)
  have l: "load_chats dbl (save_chats cs st) = chats_json cs" for st
    using p n by (simp add: load_chats_def save_chats_def readJson_def)
  then have "\<forall>cs'. load_chats dbl (save_chats cs store) = chats_json cs' \<longrightarrow> cs' = cs"
    by (auto dest: chats_json_inject)
  then show ?thesis
    using l [of store] l [of "localStorage s"] by (simp add: setChats_def) (simp add: save_chats_def)
qed

theorem save_then_load_witness:
  "safe_integer (createdAt example_chat)
   \<and> load_chats as_written (save_chats [example_chat] Map.empty) = chats_json [example_chat]
   \<and> save_chats [example_chat] Map.empty (js ''avas-chats'')
       = Some (js ''[{\"id\":\"1700000000000\",\"title\":\"Hi\",\"messages\":[{\"role\":\"user\",\"content\":\"Hi\"},{\"role\":\"assistant\",\"content\":\"Hello!\"}],\"createdAt\":1700000000000}]'')
   \<and> load_chats as_written (save_chats [] Map.empty) = JArr []"
proof -
  have s: "safe_integer (createdAt example_chat)"
    by (simp add: example_chat_def safe_integer_def)
  have t: "stringify (chats_json [example_chat])
     = js ''[{\"id\":\"1700000000000\",\"title\":\"Hi\",\"messages\":[{\"role\":\"user\",\"content\":\"Hi\"},{\"role\":\"assistant\",\"content\":\"Hello!\"}],\"createdAt\":1700000000000}]''"
    by code_simp
  show ?thesis
    using save_then_load [of "[example_chat]" as_written Map.empty initial_app]
      save_then_load [of "[]" as_written Map.empty initial_app] s t
    by (simp add: chats_json_def)
qed

section \<open>The streaming client\<close>

lemma fold_pieces:
  "fold (\<lambda>line acc. case fragment_of dbl line of None \<Rightarrow> acc | Some frag \<Rightarrow> acc @ frag) ls acc
     = acc @ concat (map (piece dbl) ls)"
  by (induction ls arbitrary: acc) (simp_all add: piece_def split: option.split)

lemma accumulate_pieces:
  "accumulate dbl chunks =
     concat (map (piece dbl) (concat (map (\<lambda>chunk. filter (\<lambda>line. trim line \<noteq> []) (split_on 0x0A chunk)) chunks)))"
proof -
  have "fold (\<lambda>chunk acc. fold (\<lambda>line acc. case fragment_of dbl line of None \<Rightarrow> acc | Some frag \<Rightarrow> acc @ frag)
                          (filter (\<lambda>line. trim line \<noteq> []) (split_on 0x0A chunk)) acc) chunks acc
         = acc @ concat (map (piece dbl) (concat (map (\<lambda>chunk. filter (\<lambda>line. trim line \<noteq> []) (split_on 0x0A chunk)) chunks)))"
    for acc
    by (induction chunks arbitrary: acc) (simp_all add: fold_pieces)
  then show ?thesis by (simp add: accumulate_def)
qed

lemma split_on_not_Nil: "split_on c s \<noteq> []"
  by (induction s) (auto split: list.split)

lemma split_on_line: "c \<notin> set l \<Longrightarrow> split_on c (l @ c # s) = l # split_on c s"
  by (induction l) (auto split: list.split simp: split_on_not_Nil)

lemma split_on_lines:
  "\<forall>l \<in> set g. c \<notin> set l \<Longrightarrow> split_on c (concat (map (\<lambda>l. l @ [c]) g)) = g @ [[]]"
  by (induction g) (simp_all add: split_on_line)

lemma trim_Nil: "trim [] = []"
  by (simp add: trim_def)

lemma trim_blank: "trim l = [] \<longleftrightarrow> (\<forall>c \<in> set l. js_whitespace c)"
proof
  assume "trim l = []"
  then have "\<forall>c \<in> set (dropWhile js_whitespace l). js_whitespace c"
    by (simp add: trim_def dropWhile_eq_Nil_conv)
  then have "dropWhile js_whitespace l = []"
    by (metis hd_dropWhile list.set_sel(1))
  then show "\<forall>c \<in> set l. js_whitespace c" by (simp add: dropWhile_eq_Nil_conv)
next
  assume "\<forall>c \<in> set l. js_whitespace c"
  then have d: "dropWhile js_whitespace l = []" by (simp add: dropWhile_eq_Nil_conv)
  show "trim l = []" unfolding trim_def d by simp
qed

lemma whitespace_unit:
  assumes "js_whitespace c" "\<not> json_ws c"
  shows "c \<noteq> 0x22" "c \<noteq> 0x5B" "c \<noteq> 0x7B" "c \<noteq> 0x74" "c \<noteq> 0x66" "c \<noteq> 0x6E" "c \<noteq> 0x2D" "\<not> is_digit c" "c \<noteq> 0x30"
  using assms by (auto simp: js_whitespace_def json_ws_def is_digit_uint word_le_def)

lemma parse_value_blank:
  assumes "\<forall>c \<in> set l. js_whitespace c"
  shows "parse_value dbl n l = None"
proof (cases n)
  case 0
  then show ?thesis by simp
next
  case (Suc k)
  show ?thesis
  proof (cases "skip_ws l")
    case Nil
    then show ?thesis using Suc by simp
  next
    case (Cons c cs)
    then have "c \<in> set l" "\<not> json_ws c"
      unfolding skip_ws_def by (metis list.set_intros(1) set_dropWhileD, metis hd_dropWhile list.sel(1) list.simps(3))
    then have w: "js_whitespace c" "\<not> json_ws c" using assms by auto
    note u = whitespace_unit [OF w]
    have "lex_number (c # cs) = None"
      using u by (simp add: lex_number_def lex_int_def)
    then show ?thesis
      unfolding Suc using Cons u by (simp only: parse_value.simps list.case if_False option.case)
  qed
qed

lemma fragment_of_blank: "trim l = [] \<Longrightarrow> fragment_of dbl l = None"
  using parse_value_blank [of l dbl "Suc (length l)"]
  by (simp add: fragment_of_def JSON_parse_def trim_blank del: parse_value.simps)

lemma piece_blank: "trim l = [] \<Longrightarrow> piece dbl l = []"
  by (simp add: piece_def fragment_of_blank)

lemma concat_pieces_filter:
  "concat (map (piece dbl) (filter (\<lambda>line. trim line \<noteq> []) ls)) = concat (map (piece dbl) ls)"
  by (induction ls) (simp_all add: piece_blank)

lemma piece_Nil: "piece dbl [] = []"
  by (simp add: piece_blank trim_Nil)

lemma lines_of_chunks:
  assumes "\<forall>g \<in> set groups. \<forall>l \<in> set g. 0x0A \<notin> set l"
  shows "concat (map (piece dbl) (concat (map (\<lambda>chunk. filter (\<lambda>line. trim line \<noteq> []) (split_on 0x0A chunk))
            (map chunk_of groups))))
         = concat (map (piece dbl) (concat groups))"
  using assms
proof (induction groups)
  case Nil
  show ?case by simp
next
  case (Cons g groups)
  have "split_on 0x0A (chunk_of g) = g @ [[]]"
    unfolding chunk_of_def using Cons.prems by (intro split_on_lines) simp
  then have "concat (map (piece dbl) (filter (\<lambda>line. trim line \<noteq> []) (split_on 0x0A (chunk_of g))))
               = concat (map (piece dbl) g)"
    by (simp add: concat_pieces_filter piece_Nil)
  then show ?case using Cons by simp
qed

lemma example_pieces:
  "piece dbl line_a = js ''a''" "piece dbl (js ''NOTJSON'') = []" "piece dbl line_b = js ''b''"
  by code_simp+

lemma example_lines: "0x0A \<notin> set line_a" "0x0A \<notin> set (js ''NOTJSON'')" "0x0A \<notin> set line_b"
  by code_simp+

lemma concat_chunks: "concat (map chunk_of groups) = chunk_of (concat groups)"
  by (induction groups) (simp_all add: chunk_of_def)

text \<open>
  What the read loop does for a body that arrives in whole lines: when every chunk that a
  read delivers holds whole lines, each ended by a line feed, the accumulated text is made,
  in order, of what each line of the body adds: the content of a line that parses to an
  object with a truthy \<open>message.content\<close>, and nothing for any other line, a malformed one
  included, after which the reading goes on. For the body of the example, delivered in
  chunks of whole lines in any way, the text is \<open>ab\<close>.
\<close>

lemma accumulate_whole_lines:
  assumes "\<forall>g \<in> set groups. \<forall>l \<in> set g. 0x0A \<notin> set l"
  shows "accumulate dbl (map chunk_of groups) = concat (map (piece dbl) (concat groups))
       \<and> (concat groups = [line_a, js ''NOTJSON'', line_b] \<longrightarrow>
            concat (map chunk_of groups) = example_body
            \<and> accumulate dbl (map chunk_of groups) = js ''ab'')"
proof -
  have a: "accumulate dbl (map chunk_of groups) = concat (map (piece dbl) (concat groups))"
    using lines_of_chunks [OF assms] by (simp add: accumulate_pieces)
  have "js ''a'' @ js ''b'' = js ''ab''" by (simp add: js_append [symmetric])
  then show ?thesis
    using a by (simp add: concat_chunks example_pieces chunk_of_def example_body_def)
qed

lemma accumulate_whole_lines_example:
  "0x0A \<notin> set line_a \<and> 0x0A \<notin> set (js ''NOTJSON'') \<and> 0x0A \<notin> set line_b
   \<and> chunk_of [line_a, js ''NOTJSON''] @ chunk_of [line_b] = example_body
   \<and> accumulate as_written [chunk_of [line_a, js ''NOTJSON''], chunk_of [line_b]] = js ''ab''
   \<and> accumulate as_written [example_body] = js ''ab''"
proof -
  have h1: "\<forall>g \<in> set [[line_a, js ''NOTJSON''], [line_b]]. \<forall>l \<in> set g. 0x0A \<notin> set l"
    and h2: "\<forall>g \<in> set [[line_a, js ''NOTJSON'', line_b]]. \<forall>l \<in> set g. 0x0A \<notin> set l"
    using example_lines by simp_all
  have e: "chunk_of [line_a, js ''NOTJSON'', line_b] = example_body"
    by (simp add: chunk_of_def example_body_def)
  have "chunk_of [line_a, js ''NOTJSON''] @ chunk_of [line_b] = example_body
        \<and> accumulate as_written [chunk_of [line_a, js ''NOTJSON''], chunk_of [line_b]] = js ''ab''"
    using conjunct2 [OF accumulate_whole_lines [OF h1, of as_written]] by simp
  moreover have "accumulate as_written [example_body] = js ''ab''"
    using conjunct2 [OF accumulate_whole_lines [OF h2, of as_written]] e by simp
  ultimately show ?thesis using example_lines by simp
qed

text \<open>
  Claim C3: the malformed lines of a body are skipped and the valid fragment lines are
  appended in order, so that the body \<open>{"message":{"content":"a"}}\<close>, \<open>NOTJSON\<close>,
  \<open>{"message":{"content":"b"}}\<close>, each line ended by a line feed, gives the text \<open>ab\<close>.
  The loop decodes each read with \<open>stream: true\<close> and takes the pieces of
  \<open>chunk.split("\n")\<close> for lines, but it carries no partial line over to the next read.
  Delivered in one read the body gives \<open>ab\<close>; the same body, with the first read ending
  after 16 code units, gives \<open>b\<close>: both halves of the first line, which is valid, are
  dropped as malformed. In the same way the two lines that the relay writes for the
  fragments \<open>Hel\<close> and \<open>lo!\<close>, with the first read ending after 40 code units, give \<open>Hel\<close>.
\<close>

theorem accumulate_split_line:
  "take 16 example_body @ drop 16 example_body = example_body
   \<and> accumulate as_written [example_body] = js ''ab''
   \<and> accumulate as_written [take 16 example_body, drop 16 example_body] = js ''b''
   \<and> accumulate as_written
         [take 40 (fragment_line (js ''Hel'') @ fragment_line (js ''lo!'')),
          drop 40 (fragment_line (js ''Hel'') @ fragment_line (js ''lo!''))] = js ''Hel''
   \<and> accumulate as_written [fragment_line (js ''Hel'') @ fragment_line (js ''lo!'')] = js ''Hello!''"
  by code_simp
section \<open>The streamed response\<close>

text \<open>The text of a fragment holds no line feed, and the client reads the fragment back.\<close>

lemma hex_unit_not_lf: "0 \<le> d \<Longrightarrow> d < 16 \<Longrightarrow> hex_unit d \<noteq> 0x0A"
proof -
  assume a: "0 \<le> d" "d < 16"
  have "uint (hex_unit d) \<noteq> uint (0x0A :: 16 word)"
    using uint_hex_unit [OF a] a by (simp split: if_splits)
  then show ?thesis by auto
qed

lemma unicode_escape_no_lf: "0x0A \<notin> set (unicode_escape c)"
proof -
  note h = hex_digits_of_unit [OF uint_bound(2) uint_bound(1), of c]
  have "hex_unit (uint c div 4096) \<noteq> 0x0A" by (rule hex_unit_not_lf) (rule h)+
  moreover have "hex_unit (uint c div 256 mod 16) \<noteq> 0x0A" by (rule hex_unit_not_lf) simp_all
  moreover have "hex_unit (uint c div 16 mod 16) \<noteq> 0x0A" by (rule hex_unit_not_lf) simp_all
  moreover have "hex_unit (uint c mod 16) \<noteq> 0x0A" by (rule hex_unit_not_lf) simp_all
  ultimately show ?thesis by (auto simp: unicode_escape_def)
qed

lemma quote_unit_no_lf: "0x0A \<notin> set (quote_units [c])"
  using unicode_escape_no_lf [of c] by auto

lemma quote_units_no_lf: "0x0A \<notin> set (quote_units s)"
proof (induction s rule: quote_units.induct)
  case 1
  show ?case by simp
next
  case (2 c)
  show ?case by (rule quote_unit_no_lf)
next
  case (3 c d ds)
  show ?case
  proof (cases "high_surrogate c \<and> low_surrogate d")
    case True
    then have "c \<noteq> 0x0A" "d \<noteq> 0x0A"
      by (auto simp: high_surrogate_def low_surrogate_def word_le_def)
    moreover have "quote_units (c # d # ds) = c # d # quote_units ds" using True by simp
    ultimately show ?thesis using 3(1) True by (simp del: quote_units.simps)
  next
    case False
    then have "quote_units (c # d # ds) = quote_units [c] @ quote_units (d # ds)"
      by (simp only: quote_units.simps(3) if_False)
    moreover have "0x0A \<notin> set (quote_units (d # ds))" using 3(3) False by blast
    ultimately show ?thesis using quote_unit_no_lf [of c] by (simp del: quote_units.simps)
  qed
qed

lemma fragment_line_eq: "fragment_line t = chunk_of [stringify (fragment_json t)]"
  by (simp add: fragment_line_def chunk_of_def)

lemma fragment_text_no_lf: "0x0A \<notin> set (stringify (fragment_json t))"
  using quote_units_no_lf [of t] quote_units_no_lf [of "js ''message''"] quote_units_no_lf [of "js ''content''"]
  by (simp add: fragment_json_def quote_json_def)

lemma wf_fragment_json: "wf_json (fragment_json t)"
  by (simp add: fragment_json_def)

lemma JSON_parse_line: "wf_json v \<Longrightarrow> JSON_parse dbl (stringify v @ [0x0A]) = Some v"
  using parse_value_stringify [of v "[0x0A]" "Suc (length (stringify v @ [0x0A]))" dbl]
  by (simp add: JSON_parse_def follow_def skip_ws_def json_ws_def)

lemma JSON_parse_fragment_line: "JSON_parse dbl (fragment_line t) = Some (fragment_json t)"
  using JSON_parse_line [OF wf_fragment_json, of dbl t]
  by (simp add: fragment_line_def)

lemma piece_fragment: "t \<noteq> [] \<Longrightarrow> piece dbl (stringify (fragment_json t)) = t"
  using JSON_parse_stringify [OF wf_fragment_json, of dbl t]
  by (simp add: piece_def fragment_of_def) (simp add: fragment_json_def)

lemma accumulate_fragment_lines:
  assumes "\<forall>t \<in> set ts. t \<noteq> []"
  shows "accumulate dbl (map fragment_line ts) = concat ts"
proof -
  have m: "map fragment_line ts = map chunk_of (map (\<lambda>t. [stringify (fragment_json t)]) ts)"
    by (simp add: fragment_line_eq)
  have "\<forall>g \<in> set (map (\<lambda>t. [stringify (fragment_json t)]) ts). \<forall>l \<in> set g. 0x0A \<notin> set l"
    by (auto simp: fragment_text_no_lf)
  then have "accumulate dbl (map fragment_line ts)
      = concat (map (piece dbl) (concat (map (\<lambda>t. [stringify (fragment_json t)]) ts)))"
    unfolding m accumulate_pieces by (rule lines_of_chunks)
  also have "\<dots> = concat ts"
    using assms by (induction ts) (simp_all add: piece_fragment)
  finally show ?thesis .
qed

lemma emit_fragments: "emit ts = map fragment_line (filter (\<lambda>t. t \<noteq> []) ts)"
  by (induction ts) simp_all

lemma concat_nonempty: "concat (filter (\<lambda>t. t \<noteq> []) ts) = concat ts"
  by (induction ts) simp_all

lemma chat_request_stream:
  assumes "(case GEMINI_API_KEY ev of None \<Rightarrow> [] | Some k \<Rightarrow> k) \<noteq> []"
  shows "fst (chat ev be now (request msgs model True)) =
     (case prepare be now (model_of ev model) msgs of
        Inl e \<Rightarrow> Json 502 (request_failed e)
      | Inr call \<Rightarrow>
          (case sendMessageStream be call of
             Inl e \<Rightarrow> Json 502 (request_failed e)
           | Inr (chunks, None) \<Rightarrow> Streamed (emit chunks)
           | Inr (chunks, Some e) \<Rightarrow>
               if emit chunks = [] then Json 502 (request_failed e) else StreamBroken (emit chunks)))"
  using assms
  by (simp add: chat_def request_def Let_def model_of_def split: sum.splits prod.splits option.splits)

lemma chat_request_plain:
  assumes "(case GEMINI_API_KEY ev of None \<Rightarrow> [] | Some k \<Rightarrow> k) \<noteq> []"
  shows "fst (chat ev be now (request msgs model False)) =
     (case prepare be now (model_of ev model) msgs of
        Inl e \<Rightarrow> Json 502 (request_failed e)
      | Inr call \<Rightarrow>
          (case sendMessage be call of
             Inl e \<Rightarrow> Json 502 (request_failed e)
           | Inr (t, raw) \<Rightarrow> Json 200 (JObj [(js ''message'', JStr t), (js ''raw'', raw)])))"
  using assms
  by (simp add: chat_def request_def Let_def model_of_def split: sum.splits prod.splits option.splits)

lemma convert_history_hi: "convert_history [turn ''user'' ''Hi''] = Inr []"
  by (simp add: convert_history_def ensure_user_first_def)

lemma last_content_hi: "last_content [turn ''user'' ''Hi''] = Inr (Some (JStr (js ''Hi'')))"
  by (simp add: last_content_def turn_def)

lemma prepare_hi:
  "prepare hello_backend now m [turn ''user'' ''Hi'']
     = Inr \<lparr>model_name = m, date_time = now, history = [], prompt = Some (JStr (js ''Hi''))\<rparr>"
  by (simp add: prepare_def convert_history_hi last_content_hi hello_backend_def)

lemma deterministic_hello: "deterministic hello_backend"
  by (simp add: deterministic_def hello_backend_def js_append [symmetric])

text \<open>
  Claim C4: with a stubbed deterministic backend, for every array of turns and every model,
  when the request with \<open>stream = false\<close> is answered 200 with the message \<open>t\<close>, the request
  with \<open>stream = true\<close> is answered by an ended stream of fragment lines whose fragments, in
  the order they were written, concatenate to \<open>t\<close>, and \<open>t\<close> is the text that the client
  accumulates from these lines; and when the former is answered by an error, the latter is
  answered by the same error.
\<close>

theorem streamed_fragments_make_the_answer:
  assumes det: "deterministic be"
  shows "(\<forall>t raw. fst (chat ev be now (request msgs model False))
              = Json 200 (JObj [(js ''message'', JStr t), (js ''raw'', raw)]) \<longrightarrow>
            (\<exists>frags. fst (chat ev be now (request msgs model True)) = Streamed (map fragment_line frags)
               \<and> concat frags = t \<and> accumulate dbl (map fragment_line frags) = t))
       \<and> (\<forall>st v. st \<noteq> 200 \<and> fst (chat ev be now (request msgs model False)) = Json st v \<longrightarrow>
            fst (chat ev be now (request msgs model True)) = Json st v)"
proof (cases "(case GEMINI_API_KEY ev of None \<Rightarrow> [] | Some k \<Rightarrow> k) = []")
  case True
  then have "fst (chat ev be now (request msgs model b)) = Json 500 not_configured" for b
    by (simp add: chat_def request_def)
  then show ?thesis by simp
next
  case key: False
  note plain = chat_request_plain [OF key, of be now msgs model]
  note stream = chat_request_stream [OF key, of be now msgs model]
  show ?thesis
  proof (cases "prepare be now (model_of ev model) msgs")
    case (Inl e)
    with plain stream show ?thesis by simp
  next
    case (Inr call)
    show ?thesis
    proof (cases "sendMessage be call")
      case (Inl e)
      with det have "sendMessageStream be call = Inl e"
        by (auto simp: deterministic_def split: sum.splits dest: spec [of _ call])
      with Inl Inr plain stream show ?thesis by simp
    next
      case r: (Inr r)
      obtain t raw where tr: "r = (t, raw)" by (cases r)
      with det r obtain chunks where
        c: "sendMessageStream be call = Inr (chunks, None)" "concat chunks = t"
        by (auto simp: deterministic_def split: sum.splits prod.splits dest!: spec [of _ call])
      have "fst (chat ev be now (request msgs model True))
              = Streamed (map fragment_line (filter (\<lambda>t. t \<noteq> []) chunks))"
        using stream c Inr by (simp add: emit_fragments)
      moreover have "concat (filter (\<lambda>t. t \<noteq> []) chunks) = t"
        using c by (simp add: concat_nonempty)
      moreover have "accumulate dbl (map fragment_line (filter (\<lambda>t. t \<noteq> []) chunks))
                       = concat (filter (\<lambda>t. t \<noteq> []) chunks)"
        by (rule accumulate_fragment_lines) simp
      ultimately show ?thesis using plain Inr r tr by auto
    qed
  qed
qed

theorem streamed_fragments_make_the_answer_witness:
  "deterministic hello_backend
   \<and> fst (chat with_key hello_backend monday (request [turn ''user'' ''Hi''] JNull False))
       = Json 200 (JObj [(js ''message'', JStr (js ''Hello!'')), (js ''raw'', JNull)])
   \<and> (\<exists>frags. fst (chat with_key hello_backend monday (request [turn ''user'' ''Hi''] JNull True))
                  = Streamed (map fragment_line frags)
               \<and> concat frags = js ''Hello!'' \<and> accumulate as_written (map fragment_line frags) = js ''Hello!'')"
proof -
  have plain: "fst (chat with_key hello_backend monday (request [turn ''user'' ''Hi''] JNull False))
       = Json 200 (JObj [(js ''message'', JStr (js ''Hello!'')), (js ''raw'', JNull)])"
    using chat_request_plain [of with_key hello_backend monday "[turn ''user'' ''Hi'']" JNull]
    by (simp add: prepare_hi) (simp add: with_key_def hello_backend_def)
  show ?thesis
    using streamed_fragments_make_the_answer
      [OF deterministic_hello, of with_key monday "[turn ''user'' ''Hi'']" JNull as_written] plain deterministic_hello
    by simp
qed

text \<open>
  Claim C10: every line that the relay writes to a streamed response is the JSON text of an
  object \<open>{message: {content: t}}\<close> with a string \<open>t\<close> that is not empty, followed by a
  line feed, and \<open>JSON.parse\<close> reads that object back from the line: a chunk with an empty
  text writes no line.
\<close>

theorem written_lines_not_empty:
  "\<exists>ts. written (fst (chat ev be now body)) = map fragment_line ts
      \<and> (\<forall>t \<in> set ts. t \<noteq> []
             \<and> JSON_parse dbl (fragment_line t) = Some (JObj [(js ''message'', JObj [(js ''content'', JStr t)])]))"
proof -
  have p: "JSON_parse dbl (fragment_line t) = Some (JObj [(js ''message'', JObj [(js ''content'', JStr t)])])" for t
    using JSON_parse_fragment_line [of dbl t] by (simp add: fragment_json_def)
  have a: "\<exists>ts. emit cs = map fragment_line ts \<and> (\<forall>t \<in> set ts. t \<noteq> [])" for cs
    by (rule exI [of _ "filter (\<lambda>t. t \<noteq> []) cs"]) (simp add: emit_fragments)
  have "\<exists>ts. written (fst (chat ev be now body)) = map fragment_line ts \<and> (\<forall>t \<in> set ts. t \<noteq> [])"
    unfolding chat_def Let_def
    by (auto split: option.splits json.splits sum.splits prod.splits simp: a)
  then show ?thesis using p by auto
qed

theorem written_lines_not_empty_witness:
  "(\<exists>ts. written (fst (chat with_key hello_backend monday (request [turn ''user'' ''Hi''] JNull True)))
            = map fragment_line ts
          \<and> (\<forall>t \<in> set ts. t \<noteq> []
                 \<and> JSON_parse as_written (fragment_line t)
                     = Some (JObj [(js ''message'', JObj [(js ''content'', JStr t)])])))
   \<and> written (fst (chat with_key hello_backend monday (request [turn ''user'' ''Hi''] JNull True)))
       = [fragment_line (js ''Hel''), fragment_line (js ''lo!'')]"
proof -
  have "fst (chat with_key hello_backend monday (request [turn ''user'' ''Hi''] JNull True))
          = Streamed [fragment_line (js ''Hel''), fragment_line (js ''lo!'')]"
    using chat_request_stream [of with_key hello_backend monday "[turn ''user'' ''Hi'']" JNull]
    by (simp add: prepare_hi) (simp add: with_key_def hello_backend_def)
  then show ?thesis
    using written_lines_not_empty [of with_key hello_backend monday "request [turn ''user'' ''Hi''] JNull True" as_written]
    by simp
qed

section \<open>Sending, cancelling and deleting\<close>

lemma read_line_frame:
  "\<exists>m a. read_line dbl line (s, c) = (s\<lparr>messages := m\<rparr>, c\<lparr>assistantMessage := a\<rparr>)"
proof (cases "fragment_of dbl line")
  case None
  then have "read_line dbl line (s, c) = (s\<lparr>messages := messages s\<rparr>, c\<lparr>assistantMessage := assistantMessage c\<rparr>)"
    by (simp add: read_line_def)
  then show ?thesis by blast
next
  case (Some frag)
  then have "read_line dbl line (s, c)
      = (s\<lparr>messages := nextMessages c @ [\<lparr>role = Assistant, content = assistantMessage c @ frag\<rparr>]\<rparr>,
         c\<lparr>assistantMessage := assistantMessage c @ frag\<rparr>)"
    by (simp add: read_line_def Let_def)
  then show ?thesis by blast
qed

lemma read_lines_frame:
  "\<exists>m a. fold (read_line dbl) ls (s, c) = (s\<lparr>messages := m\<rparr>, c\<lparr>assistantMessage := a\<rparr>)"
proof (induction ls arbitrary: s c)
  case Nil
  have "(s, c) = (s\<lparr>messages := messages s\<rparr>, c\<lparr>assistantMessage := assistantMessage c\<rparr>)" by simp
  then show ?case by (metis fold_simps(1))
next
  case (Cons l ls)
  obtain m a where 1: "read_line dbl l (s, c) = (s\<lparr>messages := m\<rparr>, c\<lparr>assistantMessage := a\<rparr>)"
    using read_line_frame by blast
  obtain m' a' where "fold (read_line dbl) ls (s\<lparr>messages := m\<rparr>, c\<lparr>assistantMessage := a\<rparr>)
      = (s\<lparr>messages := m\<rparr>\<lparr>messages := m'\<rparr>, c\<lparr>assistantMessage := a\<rparr>\<lparr>assistantMessage := a'\<rparr>)"
    using Cons [of "s\<lparr>messages := m\<rparr>" "c\<lparr>assistantMessage := a\<rparr>"] by blast
  then have "fold (read_line dbl) (l # ls) (s, c) = (s\<lparr>messages := m'\<rparr>, c\<lparr>assistantMessage := a'\<rparr>)"
    using 1 by simp
  then show ?case by blast
qed

lemma read_chunk_frame:
  "\<exists>m a. read_chunk dbl chunk (s, c) = (s\<lparr>messages := m\<rparr>, c\<lparr>assistantMessage := a\<rparr>)"
  unfolding read_chunk_def by (rule read_lines_frame)

lemma step_chunk:
  assumes "pending s = Some c" "awaits c = Read"
  shows "\<exists>m a. step dbl (Chunk chunk) s = s\<lparr>messages := m, pending := Some (c\<lparr>assistantMessage := a\<rparr>)\<rparr>"
proof -
  obtain m a where "read_chunk dbl chunk (s, c) = (s\<lparr>messages := m\<rparr>, c\<lparr>assistantMessage := a\<rparr>)"
    using read_chunk_frame by blast
  then have "step dbl (Chunk chunk) s = s\<lparr>messages := m, pending := Some (c\<lparr>assistantMessage := a\<rparr>)\<rparr>"
    using assms by (simp add: step_def)
  then show ?thesis by blast
qed

lemma run_chunks:
  assumes "pending s = Some c" "awaits c = Read"
  shows "\<exists>m a. run dbl (map Chunk cs) s = s\<lparr>messages := m, pending := Some (c\<lparr>assistantMessage := a\<rparr>)\<rparr>"
  using assms
proof (induction cs arbitrary: s c)
  case Nil
  have "s = s\<lparr>messages := messages s, pending := Some (c\<lparr>assistantMessage := assistantMessage c\<rparr>)\<rparr>"
    using Nil by simp
  then show ?case unfolding run_def by (metis fold_simps(1) list.simps(8))
next
  case (Cons x cs)
  obtain m a where 1: "step dbl (Chunk x) s = s\<lparr>messages := m, pending := Some (c\<lparr>assistantMessage := a\<rparr>)\<rparr>"
    using step_chunk [OF Cons.prems] by blast
  let ?s = "s\<lparr>messages := m, pending := Some (c\<lparr>assistantMessage := a\<rparr>)\<rparr>"
  obtain m' a' where "run dbl (map Chunk cs) ?s
       = ?s\<lparr>messages := m', pending := Some (c\<lparr>assistantMessage := a\<rparr>\<lparr>assistantMessage := a'\<rparr>)\<rparr>"
    using Cons.IH [of ?s "c\<lparr>assistantMessage := a\<rparr>"] Cons.prems(2) by auto
  then have "run dbl (map Chunk (x # cs)) s = s\<lparr>messages := m', pending := Some (c\<lparr>assistantMessage := a'\<rparr>)\<rparr>"
    using 1 by (simp add: run_def)
  then show ?case by blast
qed

lemma run_append: "run dbl (es @ fs) s = run dbl fs (run dbl es s)"
  by (simp add: run_def)

lemma step_without_pending:
  "pending s = None \<Longrightarrow> step dbl (Chunk chunk) s = s \<and> step dbl (Done now1 now2) s = s"
  by (simp add: step_def)

text \<open>
  Claim C7: when a streamed request is cancelled mid-stream (after the response arrived and
  any number of chunks were read), the suspended call ends in its \<open>catch\<close> with the
  \<open>AbortError\<close> of the abort: the conversation is the one the request carried, the turns
  before the send followed by the user turn, with no assistant turn; the status is
  \<open>Cancelled\<close>; the saved conversations, the identifier of the active one and their mirror in
  the storage are as before the send; and no chunk or end of stream that the network still
  delivers changes anything.
\<close>

theorem cancel_mid_stream:
  assumes "trim t \<noteq> []" "\<not> isGenerating s"
  shows "let s' = run dbl ([Send t now, Responds True True] @ map Chunk cs @ [Stop]) s in
           messages s' = messages s @ [\<lparr>role = User, content = t\<rparr>]
         \<and> status s' = js ''Cancelled''
         \<and> chats s' = chats s
         \<and> currentChatId s' = currentChatId s
         \<and> localStorage s' (js ''avas-chats'') = localStorage s (js ''avas-chats'')
         \<and> \<not> isGenerating s'
         \<and> step dbl (Chunk chunk) s' = s'
         \<and> step dbl (Done now1 now2) s' = s'"
proof -
  define c where "c = \<lparr>nextMessages = messages s @ [\<lparr>role = User, content = t\<rparr>], assistantMessage = [],
                        seenChats = chats s, seenChatId = currentChatId s, awaits = Read\<rparr>"
  define s2 where "s2 = run dbl [Send t now, Responds True True] s"
  have p: "pending s2 = Some c" "awaits c = Read"
    using assms by (simp_all add: s2_def run_def step_def sendMessage_begin_def logActivity_def Let_def c_def)
  have f: "chats s2 = chats s" "currentChatId s2 = currentChatId s"
    "localStorage s2 (js ''avas-chats'') = localStorage s (js ''avas-chats'')"
    using assms by (simp_all add: s2_def run_def step_def sendMessage_begin_def logActivity_def Let_def writeJson_def)
  obtain m a where 3: "run dbl (map Chunk cs) s2 = s2\<lparr>messages := m, pending := Some (c\<lparr>assistantMessage := a\<rparr>)\<rparr>"
    using run_chunks [OF p] by blast
  define s' where "s' = run dbl ([Send t now, Responds True True] @ map Chunk cs @ [Stop]) s"
  have "s' = step dbl Stop (s2\<lparr>messages := m, pending := Some (c\<lparr>assistantMessage := a\<rparr>)\<rparr>)"
    unfolding s'_def run_append s2_def [symmetric] 3 by (simp add: run_def)
  then have r: "messages s' = messages s @ [\<lparr>role = User, content = t\<rparr>]" "status s' = js ''Cancelled''"
    "chats s' = chats s" "currentChatId s' = currentChatId s"
    "localStorage s' (js ''avas-chats'') = localStorage s (js ''avas-chats'')"
    "\<not> isGenerating s'" "pending s' = None"
    using f p(2) by (simp_all add: step_def sendMessage_catch_def stopGenerating_def c_def)
  show ?thesis
    unfolding Let_def s'_def [symmetric] using r step_without_pending [OF r(7), of dbl chunk now1 now2] by simp
qed

lemma begin_facts:
  assumes "trim t \<noteq> []" "\<not> isGenerating s"
  shows "pending (step dbl (Send t now) s)
           = Some \<lparr>nextMessages = messages s @ [\<lparr>role = User, content = t\<rparr>], assistantMessage = [],
                   seenChats = chats s, seenChatId = currentChatId s, awaits = Fetch\<rparr>"
    and "chats (step dbl (Send t now) s) = chats s"
    and "currentChatId (step dbl (Send t now) s) = currentChatId s"
    and "localStorage (step dbl (Send t now) s) (js ''avas-chats'') = localStorage s (js ''avas-chats'')"
    and "messages (step dbl (Send t now) s)
           = messages s @ [\<lparr>role = User, content = t\<rparr>, \<lparr>role = Assistant, content = []\<rparr>]"
  using assms by (simp_all add: step_def sendMessage_begin_def logActivity_def Let_def writeJson_def)

text \<open>
  Claim C8 says that after a network failure before any byte of the response the
  conversation is rolled back to its state before the send. The \<open>catch\<close> sets it to
  \<open>nextMessages\<close>: the user turn of the failed send stays in the conversation.
\<close>

theorem network_failure_keeps_user_turn:
  "messages (run as_written [Send (js ''Hi'') 0, FetchRejects] initial_app)
     = messages initial_app @ [\<lparr>role = User, content = js ''Hi''\<rparr>]
   \<and> messages (run as_written [Send (js ''Hi'') 0, FetchRejects] initial_app) \<noteq> messages initial_app"
proof -
  have t: "trim (js ''Hi'') \<noteq> []" by code_simp
  have g: "\<not> isGenerating initial_app" by (simp add: initial_app_def)
  show ?thesis
    using begin_facts(1) [OF t g, of as_written 0]
    by (simp add: run_def step_def [of _ FetchRejects] sendMessage_catch_def)
qed

text \<open>
  Claim C8 as amended: when \<open>fetch\<close> rejects, so that no byte of a response was received,
  the status is the network error message, and the conversation is the one that the request
  carried: the turns before the send followed by the new user turn. The empty assistant
  placeholder is discarded, nothing is saved, and nothing is left generating.
\<close>

theorem network_failure:
  assumes "trim t \<noteq> []" "\<not> isGenerating s"
  shows "messages (run dbl [Send t now, FetchRejects] s) = messages s @ [\<lparr>role = User, content = t\<rparr>]
       \<and> status (run dbl [Send t now, FetchRejects] s) = js ''Network error. Is the API running?''
       \<and> \<not> isGenerating (run dbl [Send t now, FetchRejects] s)
       \<and> pending (run dbl [Send t now, FetchRejects] s) = None
       \<and> chats (run dbl [Send t now, FetchRejects] s) = chats s
       \<and> currentChatId (run dbl [Send t now, FetchRejects] s) = currentChatId s
       \<and> localStorage (run dbl [Send t now, FetchRejects] s) (js ''avas-chats'')
           = localStorage s (js ''avas-chats'')"
  using begin_facts [OF assms, of dbl now]
  by (simp add: run_def step_def [of _ FetchRejects] sendMessage_catch_def)

theorem network_failure_witness:
  "trim (js ''Hi'') \<noteq> [] \<and> \<not> isGenerating initial_app
   \<and> messages (run as_written [Send (js ''Hi'') 0] initial_app)
       = initialMessages @ [\<lparr>role = User, content = js ''Hi''\<rparr>, \<lparr>role = Assistant, content = []\<rparr>]
   \<and> messages (run as_written [Send (js ''Hi'') 0, FetchRejects] initial_app)
       = initialMessages @ [\<lparr>role = User, content = js ''Hi''\<rparr>]
   \<and> status (run as_written [Send (js ''Hi'') 0, FetchRejects] initial_app)
       = js ''Network error. Is the API running?''"
proof -
  have t: "trim (js ''Hi'') \<noteq> []" by code_simp
  have g: "\<not> isGenerating initial_app" by (simp add: initial_app_def)
  have m: "messages initial_app = initialMessages" by (simp add: initial_app_def)
  show ?thesis
    using network_failure [OF t g, of as_written 0] begin_facts(5) [OF t g, of as_written 0] t g m
    by (simp add: run_def)
qed

theorem cancel_mid_stream_witness:
  "trim (js ''Hi'') \<noteq> [] \<and> \<not> isGenerating initial_app
   \<and> messages (run as_written [Send (js ''Hi'') 0, Responds True True, Chunk (chunk_of [line_a])] initial_app)
       = initialMessages @ [\<lparr>role = User, content = js ''Hi''\<rparr>, \<lparr>role = Assistant, content = js ''a''\<rparr>]
   \<and> messages (run as_written [Send (js ''Hi'') 0, Responds True True, Chunk (chunk_of [line_a]), Stop] initial_app)
       = initialMessages @ [\<lparr>role = User, content = js ''Hi''\<rparr>]
   \<and> status (run as_written [Send (js ''Hi'') 0, Responds True True, Chunk (chunk_of [line_a]), Stop] initial_app)
       = js ''Cancelled''
   \<and> chats (run as_written [Send (js ''Hi'') 0, Responds True True, Chunk (chunk_of [line_a]), Stop] initial_app) = []"
proof -
  have t: "trim (js ''Hi'') \<noteq> []" by code_simp
  have g: "\<not> isGenerating initial_app" by (simp add: initial_app_def)
  have m: "messages initial_app = initialMessages" "chats initial_app = []" by (simp_all add: initial_app_def)
  have l: "filter (\<lambda>line. trim line \<noteq> []) (split_on 0x0A (chunk_of [line_a])) = [line_a]"
    by code_simp
  have f: "fragment_of as_written line_a = Some (js ''a'')"
    by code_simp
  have partial: "messages (run as_written [Send (js ''Hi'') 0, Responds True True, Chunk (chunk_of [line_a])] initial_app)
       = initialMessages @ [\<lparr>role = User, content = js ''Hi''\<rparr>, \<lparr>role = Assistant, content = js ''a''\<rparr>]"
    using begin_facts(1) [OF t g, of as_written 0] m
    by (simp add: run_def step_def [of _ "Responds True True"] step_def [of _ "Chunk (chunk_of [line_a])"]
        read_chunk_def l read_line_def f)
  show ?thesis
    using cancel_mid_stream [OF t g, of as_written 0 "[chunk_of [line_a]]"] partial t g m
    by (simp add: Let_def)
qed

lemma filter_removes_one:
  "distinct (map f xs) \<Longrightarrow> a \<in> f ` set xs \<Longrightarrow> Suc (length (filter (\<lambda>x. f x \<noteq> a) xs)) = length xs"
proof (induction xs)
  case Nil
  then show ?case by simp
next
  case (Cons x xs)
  show ?case
  proof (cases "f x = a")
    case True
    then have "a \<notin> f ` set xs" using Cons.prems(1) by auto
    then have "filter (\<lambda>x. f x \<noteq> a) xs = xs" by (auto simp: filter_id_conv)
    then show ?thesis using True by simp
  next
    case False
    then show ?thesis using Cons by auto
  qed
qed

text \<open>
  Claim C9 says that deleting the active conversation resets the active conversation to a
  fresh empty one. \<open>clearChat\<close> sets the turns to \<open>initialMessages\<close>, which holds the greeting
  of the assistant: the reset conversation is not empty.
\<close>

theorem deleteChat_leaves_greeting:
  "currentChatId saved_app = Some (chat_id example_chat)
   \<and> messages (deleteChat (chat_id example_chat) saved_app)
       = [\<lparr>role = Assistant, content = js ''Hi, I am AVAS. Ask me anything or tap the mic to speak.''\<rparr>]
   \<and> messages (deleteChat (chat_id example_chat) saved_app) \<noteq> []"
  by (simp add: deleteChat_def saved_app_def clearChat_def setChats_def initialMessages_def)

text \<open>
  Claim C9 as amended: \<open>deleteChat\<close> removes from the collection the conversations with the
  given identifier (exactly one when the identifiers are distinct and one of them is the
  given one) and leaves the others as they are and in their order; the storage mirrors the
  new collection; deleting the active conversation resets the active conversation to the
  initial one, with no identifier, the status \<open>Ready\<close> and the greeting of \<open>initialMessages\<close>
  as its only turn; deleting another conversation leaves the active one as it is.
\<close>

theorem deleteChat_removes:
  "chats (deleteChat chatId s) = filter (\<lambda>c. chat_id c \<noteq> chatId) (chats s)
   \<and> (distinct (map chat_id (chats s)) \<and> chatId \<in> chat_id ` set (chats s) \<longrightarrow>
        Suc (length (chats (deleteChat chatId s))) = length (chats s))
   \<and> localStorage (deleteChat chatId s) (js ''avas-chats'')
       = Some (stringify (chats_json (filter (\<lambda>c. chat_id c \<noteq> chatId) (chats s))))
   \<and> (currentChatId s = Some chatId \<longrightarrow>
        messages (deleteChat chatId s) = initialMessages
        \<and> currentChatId (deleteChat chatId s) = None
        \<and> status (deleteChat chatId s) = js ''Ready'')
   \<and> (currentChatId s \<noteq> Some chatId \<longrightarrow>
        messages (deleteChat chatId s) = messages s
        \<and> currentChatId (deleteChat chatId s) = currentChatId s
        \<and> status (deleteChat chatId s) = status s)"
proof -
  have c: "chats (deleteChat chatId s) = filter (\<lambda>c. chat_id c \<noteq> chatId) (chats s)"
    by (simp add: deleteChat_def Let_def setChats_def clearChat_def)
  have "Suc (length (filter (\<lambda>c. chat_id c \<noteq> chatId) (chats s))) = length (chats s)"
    if "distinct (map chat_id (chats s))" "chatId \<in> chat_id ` set (chats s)"
    using that by (rule filter_removes_one)
  then show ?thesis
    unfolding c by (simp add: deleteChat_def Let_def setChats_def clearChat_def save_chats_def)
qed

theorem deleteChat_removes_witness:
  "distinct (map chat_id (chats saved_app)) \<and> chat_id example_chat \<in> chat_id ` set (chats saved_app)
   \<and> currentChatId saved_app = Some (chat_id example_chat)
   \<and> chats (deleteChat (chat_id example_chat) saved_app) = []
   \<and> Suc (length (chats (deleteChat (chat_id example_chat) saved_app))) = length (chats saved_app)
   \<and> localStorage (deleteChat (chat_id example_chat) saved_app) (js ''avas-chats'') = Some (js ''[]'')
   \<and> messages (deleteChat (chat_id example_chat) saved_app) = initialMessages
   \<and> currentChatId (deleteChat (chat_id example_chat) saved_app) = None
   \<and> status (deleteChat (chat_id example_chat) saved_app) = js ''Ready''"
proof -
  have a: "chats saved_app = [example_chat]" "currentChatId saved_app = Some (chat_id example_chat)"
    by (simp_all add: saved_app_def)
  have e: "stringify (chats_json []) = js ''[]''" by code_simp
  show ?thesis
    using deleteChat_removes [of "chat_id example_chat" saved_app] a e by simp
qed

end
